theory Spec2Isabelle
  imports Complex_Main "HOL-Library.Multiset" "HOL-Library.Product_Lexorder" "HOL-Library.AList"
begin

section \<open>Data model\<close>

text \<open>
  Python floats are modelled as \<^typ>\<open>real\<close> (no NaN, no infinity), Python integers as
  \<^typ>\<open>int\<close>.  The arithmetic of the scheduler and of the retry tracker is that of the
  reals; the moving average of \<open>update_ert\<close> is rounded as the code rounds it, see
  there.  A task metadata dictionary is a record with one optional field for every
  key the engine reads or writes; \<open>None\<close> stands for an absent key, so that
  \<open>task_meta.get(k, d)\<close> is a case distinction with default \<open>d\<close>.  The key
  \<open>last_error\<close> holds an optional string once it has been written, hence the nested option;
  the payloads \<open>params\<close> and \<open>metadata\<close>, which the engine never inspects, are opaque
  strings.
\<close>

record task_meta =
  task_id :: "string option"
  run_id :: "string option"
  agent :: "string option"
  action :: "string option"
  params :: "string option"
  depends_on :: "string list option"
  user_priority :: "real option"
  deadline_ts :: "real option"
  retries :: "int option"
  attempt :: "int option"
  metadata :: "string option"
  timestamp :: "real option"
  last_error :: "string option option"
  retry_timestamp :: "real option"
  started_at :: "real option"
  completed_at :: "real option"
  failed_at :: "real option"
  runtime_s :: "real option"
  error :: "string option"

section \<open>state.py: RedisStore\<close>

text \<open>
  A \<open>RedisStore\<close> whose connection attempt failed has \<open>self.r = None\<close>; that is the value
  \<open>None\<close> here.  A connected store holds, under its namespace, the sorted set \<open>retry_q\<close>
  (member, score) and the hash \<open>ert\<close>.
\<close>

record redis_data =
  retry_q :: "(string \<times> real) list"
  ert :: "string \<rightharpoonup> real"

type_synonym redis_store = "redis_data option"

definition zadd_retry :: "redis_store \<Rightarrow> string \<Rightarrow> real \<Rightarrow> bool \<times> redis_store" where
  "zadd_retry st tid due =
     (case st of
        None \<Rightarrow> (False, None)
      | Some d \<Rightarrow> (True, Some (d\<lparr>retry_q := AList.update tid due (retry_q d)\<rparr>)))"

definition remove_retry :: "redis_store \<Rightarrow> string \<Rightarrow> bool \<times> redis_store" where
  "remove_retry st tid =
     (case st of
        None \<Rightarrow> (False, None)
      | Some d \<Rightarrow> (tid \<in> fst ` set (retry_q d),
                   Some (d\<lparr>retry_q := AList.delete tid (retry_q d)\<rparr>)))"

definition ert_key :: "string \<Rightarrow> string \<Rightarrow> string" where
  "ert_key ag ac = ag @ '':'' @ ac"

definition get_ert :: "redis_store \<Rightarrow> string \<Rightarrow> string \<Rightarrow> real \<Rightarrow> real" where
  "get_ert st ag ac dflt =
     (case st of
        None \<Rightarrow> dflt
      | Some d \<Rightarrow> (case ert d (ert_key ag ac) of None \<Rightarrow> dflt | Some e \<Rightarrow> e))"

text \<open>
  \<open>update_ert\<close> evaluates \<open>0.7 * old_ert + 0.3 * runtime_seconds\<close> in double precision:
  the two literals are doubles, and each of the two products and the sum is the exact
  result rounded to the nearest double, ties to the even significand.  \<open>double_of x\<close>
  is that rounding of the real \<open>x\<close>: a double has 53 significant bits, so in the binade
  \<open>2^e \<le> |x| < 2^(e+1)\<close> the doubles are the multiples of \<open>2^(e-52)\<close>, and below
  \<open>2^-1022\<close>, among the subnormal numbers, the multiples of \<open>2^-1074\<close>.  The upper end
  of the format is not modelled: the two weights add up to less than 1, so on finite
  doubles the three operations never overflow.  Redis keeps the estimate as the string
  that \<open>repr\<close> gives, which \<open>float\<close> reads back exactly.
\<close>

definition round_half_even :: "real \<Rightarrow> int" where
  "round_half_even y =
     (let f = \<lfloor>y\<rfloor>; d = y - of_int f
      in if d < 1/2 then f else if 1/2 < d then f + 1
         else if even f then f else f + 1)"

definition double_of :: "real \<Rightarrow> real" where
  "double_of x =
     (if x = 0 then 0
      else (let e = max \<lfloor>log 2 \<bar>x\<bar>\<rfloor> (- 1022); q = 2 powi (e - 52)
            in of_int (round_half_even (x / q)) * q))"

definition lit_0_7 :: real where
  "lit_0_7 = double_of (7 / 10)"

definition lit_0_3 :: real where
  "lit_0_3 = double_of (3 / 10)"

definition update_ert :: "redis_store \<Rightarrow> string \<Rightarrow> string \<Rightarrow> real \<Rightarrow> bool \<times> redis_store" where
  "update_ert st ag ac runtime_seconds =
     (case st of
        None \<Rightarrow> (False, None)
      | Some d \<Rightarrow>
          (let old_ert = get_ert st ag ac runtime_seconds;
               new_ert = double_of (double_of (lit_0_7 * old_ert)
                                    + double_of (lit_0_3 * runtime_seconds))
           in (True, Some (d\<lparr>ert := (ert d)(ert_key ag ac \<mapsto> new_ert)\<rparr>))))"

text \<open>
  \<open>observe k\<close> is \<open>k\<close> consecutive calls \<open>update_ert(agent, action, r)\<close> with the same
  runtime \<open>r\<close>.
\<close>

fun observe :: "nat \<Rightarrow> redis_store \<Rightarrow> string \<Rightarrow> string \<Rightarrow> real \<Rightarrow> redis_store" where
  "observe 0 st ag ac r = st"
| "observe (Suc k) st ag ac r = observe k (snd (update_ert st ag ac r)) ag ac r"

section \<open>retry_tracker.py: RetryTracker\<close>

record retry_config =
  cfg_max_retries :: "int option"
  cfg_backoff_base_s :: "real option"
  cfg_backoff_max_s :: "real option"

record retry_stats =
  retries_scheduled :: int
  retries_executed :: int
  retries_abandoned :: int
  current_pending :: int

record retry_tracker =
  max_retries :: int
  backoff_base_s :: real
  backoff_max_s :: real
  rt_redis :: redis_store
  rt_stats :: retry_stats

definition RetryTracker_init :: "retry_config \<Rightarrow> redis_store \<Rightarrow> retry_tracker" where
  "RetryTracker_init config st =
     \<lparr> max_retries = (case cfg_max_retries config of None \<Rightarrow> 3 | Some n \<Rightarrow> n),
       backoff_base_s = (case cfg_backoff_base_s config of None \<Rightarrow> 15 | Some b \<Rightarrow> b),
       backoff_max_s = (case cfg_backoff_max_s config of None \<Rightarrow> 300 | Some b \<Rightarrow> b),
       rt_redis = st,
       rt_stats = \<lparr> retries_scheduled = 0, retries_executed = 0,
                    retries_abandoned = 0, current_pending = 0 \<rparr> \<rparr>"

text \<open>Python's \<open>2 ** n\<close> on an integer exponent: an integer power, a reciprocal below zero.\<close>

definition pow2 :: "int \<Rightarrow> real" where
  "pow2 n = (if 0 \<le> n then 2 ^ nat n else 1 / 2 ^ nat (- n))"

definition get_pending_count :: "redis_store \<Rightarrow> int" where
  "get_pending_count st = (case st of None \<Rightarrow> 0 | Some d \<Rightarrow> int (length (retry_q d)))"

definition get_task_id :: "task_meta \<Rightarrow> string" where
  "get_task_id tm = (case task_id tm of None \<Rightarrow> ''unknown'' | Some t \<Rightarrow> t)"

definition get_retries :: "task_meta \<Rightarrow> int" where
  "get_retries tm = (case retries tm of None \<Rightarrow> 0 | Some n \<Rightarrow> n)"

definition backoff_delay :: "retry_tracker \<Rightarrow> int \<Rightarrow> real" where
  "backoff_delay rt current_retries =
     min (backoff_base_s rt * pow2 current_retries) (backoff_max_s rt)"

text \<open>
  \<open>schedule\<close> takes the clock reading \<open>now\<close> of its one call to \<open>time.time()\<close> and returns
  its result together with the mutated task metadata and tracker.
\<close>

definition schedule ::
  "retry_tracker \<Rightarrow> real \<Rightarrow> task_meta \<Rightarrow> string option \<Rightarrow> bool \<times> task_meta \<times> retry_tracker" where
  "schedule rt now tm error_context =
     (let tid = get_task_id tm;
          current_retries = get_retries tm
      in if current_retries \<ge> max_retries rt then
           (False, tm,
            rt\<lparr>rt_stats := (rt_stats rt)\<lparr>retries_abandoned :=
                                retries_abandoned (rt_stats rt) + 1\<rparr>\<rparr>)
         else
           (let delay = backoff_delay rt current_retries;
                retry_ts = now + delay;
                tm' = tm\<lparr>retries := Some (current_retries + 1),
                         last_error := Some error_context,
                         retry_timestamp := Some retry_ts\<rparr>;
                (success, st') = zadd_retry (rt_redis rt) tid retry_ts
            in if success then
                 (True, tm',
                  rt\<lparr>rt_redis := st',
                     rt_stats := (rt_stats rt)\<lparr>retries_scheduled :=
                                   retries_scheduled (rt_stats rt) + 1,
                                 current_pending := get_pending_count st'\<rparr>\<rparr>)
               else (False, tm', rt\<lparr>rt_redis := st'\<rparr>)))"

definition cancel_retry :: "retry_tracker \<Rightarrow> string \<Rightarrow> bool \<times> retry_tracker" where
  "cancel_retry rt tid =
     (let (success, st') = remove_retry (rt_redis rt) tid
      in if success then
           (True, rt\<lparr>rt_redis := st',
                     rt_stats := (rt_stats rt)\<lparr>current_pending := get_pending_count st'\<rparr>\<rparr>)
         else (False, rt\<lparr>rt_redis := st'\<rparr>))"

text \<open>Concrete inputs used by the closed theorems below.\<close>

definition tm_empty :: task_meta where
  "tm_empty = \<lparr> task_id = None, run_id = None, agent = None, action = None,
                params = None, depends_on = None,
                user_priority = None, deadline_ts = None, retries = None,
                attempt = None, metadata = None, timestamp = None,
                last_error = None, retry_timestamp = None, started_at = None,
                completed_at = None, failed_at = None, runtime_s = None, error = None \<rparr>"

definition tm_A :: task_meta where
  "tm_A = tm_empty\<lparr>task_id := Some ''A'', run_id := Some ''W'', agent := Some ''X'',
                    action := Some ''run''\<rparr>"

definition redis_empty :: redis_data where
  "redis_empty = \<lparr> retry_q = [], ert = Map.empty \<rparr>"

definition default_retry_config :: retry_config where
  "default_retry_config =
     \<lparr> cfg_max_retries = None, cfg_backoff_base_s = None, cfg_backoff_max_s = None \<rparr>"

definition rt_down :: retry_tracker where
  "rt_down = RetryTracker_init default_retry_config None"

definition rt_up :: retry_tracker where
  "rt_up = RetryTracker_init default_retry_config (Some redis_empty)"

section \<open>scheduler.py: ScoredTask and PriorityQueueScheduler\<close>

record scored_task =
  sc_score :: real
  sc_enqueue_time :: real
  sc_task_meta :: task_meta

text \<open>\<open>ScoredTask.__lt__\<close>: lower score first, earlier enqueue time on equal scores.\<close>

definition lt :: "scored_task \<Rightarrow> scored_task \<Rightarrow> bool" where
  "lt a b = (if sc_score a \<noteq> sc_score b then sc_score a < sc_score b
             else sc_enqueue_time a < sc_enqueue_time b)"

record sched_stats =
  tasks_enqueued :: int
  tasks_dequeued :: int
  current_queue_size :: int
  avg_score :: real

record scheduler =
  alpha :: real
  beta :: real
  gamma :: real
  heap :: "scored_task list"
  sched_redis :: redis_store
  sched_stats :: sched_stats

record sched_config =
  cfg_alpha :: "real option"
  cfg_beta :: "real option"
  cfg_gamma :: "real option"

definition Scheduler_init :: "sched_config \<Rightarrow> redis_store \<Rightarrow> scheduler" where
  "Scheduler_init config st =
     \<lparr> alpha = (case cfg_alpha config of None \<Rightarrow> 1 | Some a \<Rightarrow> a),
       beta = (case cfg_beta config of None \<Rightarrow> 2 | Some b \<Rightarrow> b),
       gamma = (case cfg_gamma config of None \<Rightarrow> 3 | Some g \<Rightarrow> g),
       heap = [],
       sched_redis = st,
       sched_stats = \<lparr> tasks_enqueued = 0, tasks_dequeued = 0,
                       current_queue_size = 0, avg_score = 0 \<rparr> \<rparr>"

definition get_agent :: "task_meta \<Rightarrow> string" where
  "get_agent tm = (case agent tm of None \<Rightarrow> ''unknown'' | Some a \<Rightarrow> a)"

definition get_action :: "task_meta \<Rightarrow> string" where
  "get_action tm = (case action tm of None \<Rightarrow> ''unknown'' | Some a \<Rightarrow> a)"

text \<open>
  \<open>score\<close> with the reading \<open>now\<close> of \<open>time.time()\<close>.  The test \<open>if deadline_ts:\<close> is
  Python truthiness: an absent deadline and the number zero both take the else branch.
\<close>

definition score :: "scheduler \<Rightarrow> real \<Rightarrow> task_meta \<Rightarrow> real" where
  "score s now tm =
     (let ert_s = get_ert (sched_redis s) (get_agent tm) (get_action tm) 60;
          runtime_score = alpha s / max ert_s 1;
          priority = (case user_priority tm of None \<Rightarrow> 0.5 | Some p \<Rightarrow> p);
          priority_score = beta s * priority;
          urgency = (case deadline_ts tm of
                       None \<Rightarrow> 0
                     | Some d \<Rightarrow> if d \<noteq> 0 then 1 / max (d - now) 1 else 0);
          urgency_score = gamma s * urgency
      in - (runtime_score + priority_score + urgency_score))"

text \<open>
  The score as the specification words it: the urgency term is present whenever the
  task metadata carries a deadline.
\<close>

definition spec_ert :: "scheduler \<Rightarrow> task_meta \<Rightarrow> real" where
  "spec_ert s tm =
     (case sched_redis s of
        None \<Rightarrow> 60
      | Some d \<Rightarrow> (case ert d (ert_key (get_agent tm) (get_action tm)) of
                     None \<Rightarrow> 60 | Some e \<Rightarrow> e))"

definition spec_urgency :: "real \<Rightarrow> task_meta \<Rightarrow> real" where
  "spec_urgency now tm =
     (case deadline_ts tm of None \<Rightarrow> 0 | Some d \<Rightarrow> 1 / max (d - now) 1)"

definition spec_score :: "scheduler \<Rightarrow> real \<Rightarrow> task_meta \<Rightarrow> real" where
  "spec_score s now tm =
     - (alpha s / max (spec_ert s tm) 1
        + beta s * (case user_priority tm of None \<Rightarrow> 0.5 | Some p \<Rightarrow> p)
        + gamma s * spec_urgency now tm)"

definition default_sched_config :: sched_config where
  "default_sched_config = \<lparr> cfg_alpha = None, cfg_beta = None, cfg_gamma = None \<rparr>"

definition sched_empty :: scheduler where
  "sched_empty = Scheduler_init default_sched_config (Some redis_empty)"

subsection \<open>heapq: the binary heap of the standard library\<close>

text \<open>
  The scheduler keeps its entries in a Python list ordered by \<open>heapq\<close>, which compares
  entries with \<open>__lt__\<close> only.  The functions below follow \<open>heapq.py\<close> line by line:
  \<open>_siftdown\<close> moves an entry towards the root, \<open>_siftup\<close> moves the hole at \<open>pos\<close> down
  to a leaf along the smaller children and then calls \<open>_siftdown\<close>.
\<close>

function siftdown_loop ::
  "scored_task list \<Rightarrow> nat \<Rightarrow> scored_task \<Rightarrow> nat \<Rightarrow> scored_task list" where
  "siftdown_loop h startpos newitem pos =
     (if pos > startpos then
        (let parentpos = (pos - 1) div 2;
             parent = h ! parentpos
         in if lt newitem parent then siftdown_loop (h[pos := parent]) startpos newitem parentpos
            else h[pos := newitem])
      else h[pos := newitem])"
  by pat_completeness auto
termination
  by (relation "measure (\<lambda>(h, startpos, newitem, pos). pos)") auto

declare siftdown_loop.simps [simp del]

definition siftdown :: "scored_task list \<Rightarrow> nat \<Rightarrow> nat \<Rightarrow> scored_task list" where
  "siftdown h startpos pos = siftdown_loop h startpos (h ! pos) pos"

function siftup_loop :: "scored_task list \<Rightarrow> nat \<Rightarrow> nat \<Rightarrow> scored_task list \<times> nat" where
  "siftup_loop h endpos pos =
     (let childpos = 2 * pos + 1
      in if childpos < endpos then
           (let rightpos = childpos + 1;
                childpos' = (if rightpos < endpos \<and> \<not> lt (h ! childpos) (h ! rightpos)
                             then rightpos else childpos)
            in siftup_loop (h[pos := h ! childpos']) endpos childpos')
         else (h, pos))"
  by pat_completeness auto
termination
  by (relation "measure (\<lambda>(h, endpos, pos). endpos - pos)") (auto simp add: Let_def)

declare siftup_loop.simps [simp del]

definition siftup :: "scored_task list \<Rightarrow> nat \<Rightarrow> scored_task list" where
  "siftup h pos =
     (let endpos = length h;
          startpos = pos;
          newitem = h ! pos;
          (h1, pos1) = siftup_loop h endpos pos
      in siftdown (h1[pos1 := newitem]) startpos pos1)"

definition heappush :: "scored_task list \<Rightarrow> scored_task \<Rightarrow> scored_task list" where
  "heappush h item = siftdown (h @ [item]) 0 (length (h @ [item]) - 1)"

text \<open>\<open>heappop\<close> of an empty list raises \<open>IndexError\<close>: the value \<open>None\<close>.\<close>

definition heappop :: "scored_task list \<Rightarrow> (scored_task \<times> scored_task list) option" where
  "heappop h =
     (if h = [] then None
      else (let lastelt = last h;
                h1 = butlast h
            in if h1 \<noteq> [] then Some (h1 ! 0, siftup (h1[0 := lastelt]) 0)
               else Some (lastelt, h1)))"

definition heapify :: "scored_task list \<Rightarrow> scored_task list" where
  "heapify x = foldl siftup x (rev [0 ..< length x div 2])"

text \<open>The list keeps its length under the sift operations; a pop shortens it by one.\<close>

lemma length_siftdown_loop [simp]: "length (siftdown_loop h s n p) = length h"
proof (induction h s n p rule: siftdown_loop.induct)
  case (1 h startpos newitem pos)
  show ?case
    using "1.IH" by (subst siftdown_loop.simps) (simp add: Let_def)
qed

lemma length_siftdown [simp]: "length (siftdown h s p) = length h"
  by (simp add: siftdown_def)

lemma length_siftup_loop [simp]: "length (fst (siftup_loop h e p)) = length h"
proof (induction h e p rule: siftup_loop.induct)
  case (1 h endpos pos)
  show ?case
    using "1.IH" by (subst siftup_loop.simps) (simp add: Let_def)
qed

lemma length_siftup [simp]: "length (siftup h p) = length h"
proof -
  obtain h1 p1 where e: "siftup_loop h (length h) p = (h1, p1)" by (cases "siftup_loop h (length h) p")
  have "length h1 = length h" using length_siftup_loop[of h "length h" p] e by simp
  then show ?thesis by (simp add: siftup_def e)
qed

lemma length_heappush [simp]: "length (heappush h x) = Suc (length h)"
  by (simp add: heappush_def)

lemma heappop_length: "heappop h = Some (x, h') \<Longrightarrow> length h' = length h - 1"
proof -
  assume a: "heappop h = Some (x, h')"
  then have ne: "h \<noteq> []" by (auto simp add: heappop_def)
  show ?thesis
  proof (cases "butlast h = []")
    case True
    then have "h' = butlast h" using a ne by (simp add: heappop_def Let_def)
    then show ?thesis by simp
  next
    case False
    then have "h' = siftup ((butlast h)[0 := last h]) 0"
      using a ne by (simp add: heappop_def Let_def)
    then show ?thesis by simp
  qed
qed

lemma heappop_None [simp]: "heappop h = None \<longleftrightarrow> h = []"
  by (simp add: heappop_def Let_def)

subsection \<open>PriorityQueueScheduler: enqueue, dequeue, remove_task\<close>

definition update_avg :: "scheduler \<Rightarrow> scheduler" where
  "update_avg s =
     s\<lparr>sched_stats := (sched_stats s)\<lparr>
          current_queue_size := int (length (heap s)),
          avg_score := (if heap s \<noteq> [] then sum_list (map sc_score (heap s)) / real (length (heap s))
                        else 0)\<rparr>\<rparr>"

text \<open>
  \<open>enqueue\<close> reads the clock twice: \<open>t_score\<close> inside \<open>score\<close>, \<open>t_enq\<close> for the
  enqueue time.
\<close>

definition enqueue :: "scheduler \<Rightarrow> real \<Rightarrow> real \<Rightarrow> task_meta \<Rightarrow> bool \<times> scheduler" where
  "enqueue s t_score t_enq tm =
     (let scored = \<lparr> sc_score = score s t_score tm, sc_enqueue_time = t_enq, sc_task_meta = tm \<rparr>;
          s1 = s\<lparr>heap := heappush (heap s) scored\<rparr>;
          s2 = s1\<lparr>sched_stats := (sched_stats s1)\<lparr>tasks_enqueued := tasks_enqueued (sched_stats s1) + 1\<rparr>\<rparr>
      in (True, update_avg s2))"

definition update_dequeue_stats :: "scheduler \<Rightarrow> scheduler" where
  "update_dequeue_stats s =
     update_avg (s\<lparr>sched_stats := (sched_stats s)\<lparr>tasks_dequeued := tasks_dequeued (sched_stats s) + 1\<rparr>\<rparr>)"

text \<open>The loop \<open>while self.heap\<close> of the filtered dequeue: every entry is popped.\<close>

function drain ::
  "scored_task list \<Rightarrow> string \<Rightarrow> scored_task list \<Rightarrow> scored_task list
     \<Rightarrow> scored_task list \<times> scored_task list" where
  "drain h f matching_tasks remaining_tasks =
     (if h = [] then (matching_tasks, remaining_tasks)
      else (case heappop h of
              None \<Rightarrow> (matching_tasks, remaining_tasks)
            | Some (scored, h') \<Rightarrow>
                if agent (sc_task_meta scored) = Some f
                then drain h' f (matching_tasks @ [scored]) remaining_tasks
                else drain h' f matching_tasks (remaining_tasks @ [scored])))"
  by pat_completeness auto
termination
proof (relation "measure (\<lambda>(h, f, m, r). length h)")
  show "wf (measure (\<lambda>(h, f, m, r). length h))" by simp
next
  fix h f m r x2 x y
  assume "h \<noteq> []" "heappop h = Some x2" "(x, y) = x2"
  then have "length y = length h - 1" using heappop_length[of h x y] by simp
  then show "((y, f, m @ [x], r), (h, f, m, r)) \<in> measure (\<lambda>(h, f, m, r). length h)"
    using \<open>h \<noteq> []\<close> by (cases h) simp_all
next
  fix h f m r x2 x y
  assume "h \<noteq> []" "heappop h = Some x2" "(x, y) = x2"
  then have "length y = length h - 1" using heappop_length[of h x y] by simp
  then show "((y, f, m, r @ [x]), (h, f, m, r)) \<in> measure (\<lambda>(h, f, m, r). length h)"
    using \<open>h \<noteq> []\<close> by (cases h) simp_all
qed

declare drain.simps [simp del]

text \<open>
  \<open>min(matching_tasks, key=lambda t: t.score)\<close>: the first entry of the list whose score
  no other entry undercuts.
\<close>

definition min_by_score :: "scored_task list \<Rightarrow> scored_task" where
  "min_by_score xs = foldl (\<lambda>best t. if sc_score t < sc_score best then t else best) (hd xs) (tl xs)"

text \<open>
  \<open>dequeue_scored\<close> is \<open>dequeue\<close> returning the chosen \<open>ScoredTask\<close> (the local
  \<open>scored_task\<close> or \<open>best_task\<close>); \<open>dequeue\<close> returns its \<open>task_meta\<close>.  The test
  \<open>if not agent_filter\<close> holds for \<open>None\<close> and for the empty string.  The comparison
  \<open>task != best_task\<close> is the equality the dataclass generates: all three fields equal.
\<close>

definition dequeue_scored :: "scheduler \<Rightarrow> string option \<Rightarrow> scored_task option \<times> scheduler" where
  "dequeue_scored s agent_filter =
     (if heap s = [] then (None, s)
      else if agent_filter = None \<or> agent_filter = Some [] then
        (case heappop (heap s) of
           None \<Rightarrow> (None, s)
         | Some (scored, h') \<Rightarrow> (Some scored, update_dequeue_stats (s\<lparr>heap := h'\<rparr>)))
      else
        (let (matching_tasks, remaining_tasks) = drain (heap s) (the agent_filter) [] [];
             h1 = heapify remaining_tasks
         in if matching_tasks \<noteq> [] then
              (let best_task = min_by_score matching_tasks;
                   h2 = foldl (\<lambda>h task. if task \<noteq> best_task then heappush h task else h)
                          h1 matching_tasks
               in (Some best_task, update_dequeue_stats (s\<lparr>heap := h2\<rparr>)))
            else (None, s\<lparr>heap := h1\<rparr>)))"

definition dequeue :: "scheduler \<Rightarrow> string option \<Rightarrow> task_meta option \<times> scheduler" where
  "dequeue s agent_filter =
     (case dequeue_scored s agent_filter of (r, s') \<Rightarrow> (map_option sc_task_meta r, s'))"

definition remove_task :: "scheduler \<Rightarrow> string \<Rightarrow> bool \<times> scheduler" where
  "remove_task s tid =
     (let original_size = length (heap s);
          h' = heapify (filter (\<lambda>task. task_id (sc_task_meta task) \<noteq> Some tid) (heap s));
          removed = length h' < original_size;
          s' = s\<lparr>heap := h'\<rparr>
      in if removed
         then (True, s'\<lparr>sched_stats := (sched_stats s')\<lparr>current_queue_size := int (length h')\<rparr>\<rparr>)
         else (False, s'))"

text \<open>
  The invariant of \<open>heapq\<close>: no entry is less than its parent, the entry at
  \<open>(i - 1) div 2\<close>.
\<close>

definition heap_invariant :: "scored_task list \<Rightarrow> bool" where
  "heap_invariant h = (\<forall>i \<in> set [1 ..< length h]. \<not> lt (h ! i) (h ! ((i - 1) div 2)))"

text \<open>Successive dequeues with one filter and no enqueue in between: the entries returned.\<close>

fun dequeue_many :: "nat \<Rightarrow> scheduler \<Rightarrow> string option \<Rightarrow> scored_task list" where
  "dequeue_many 0 s agent_filter = []"
| "dequeue_many (Suc n) s agent_filter =
     (case dequeue_scored s agent_filter of
        (None, s') \<Rightarrow> dequeue_many n s' agent_filter
      | (Some t, s') \<Rightarrow> t # dequeue_many n s' agent_filter)"

subsection \<open>Notions for the heap proofs\<close>

text \<open>The sort key that \<open>__lt__\<close> compares, in lexicographic order.\<close>

definition key :: "scored_task \<Rightarrow> real \<times> real" where
  "key t = (sc_score t, sc_enqueue_time t)"

definition parent :: "nat \<Rightarrow> nat" where
  "parent i = (i - 1) div 2"

text \<open>\<open>anc s i\<close>: position \<open>i\<close> lies in the subtree rooted at position \<open>s\<close>.\<close>

function anc :: "nat \<Rightarrow> nat \<Rightarrow> bool" where
  "anc s i = (if i \<le> s then i = s else anc s (parent i))"
  by pat_completeness auto
termination
  by (relation "measure (\<lambda>(s, i). i)") (auto simp add: parent_def)

declare anc.simps [simp del]

text \<open>
  \<open>heap_from s h\<close>: every entry whose parent sits at position \<open>s\<close> or later is not less
  than its parent.  \<open>hole_ok s h p\<close>: the same with position \<open>p\<close> left out, the children
  of \<open>p\<close> being not less than the parent of \<open>p\<close>.
\<close>

definition heap_from :: "nat \<Rightarrow> scored_task list \<Rightarrow> bool" where
  "heap_from s h =
     (\<forall>i<length h. 0 < i \<and> s \<le> parent i \<longrightarrow> key (h ! parent i) \<le> key (h ! i))"

definition hole_ok :: "nat \<Rightarrow> scored_task list \<Rightarrow> nat \<Rightarrow> bool" where
  "hole_ok s h p =
     ((\<forall>i<length h. 0 < i \<and> s \<le> parent i \<and> i \<noteq> p \<and> parent i \<noteq> p
          \<longrightarrow> key (h ! parent i) \<le> key (h ! i))
      \<and> (\<forall>i<length h. 0 < i \<and> parent i = p \<and> s < p
          \<longrightarrow> key (h ! parent p) \<le> key (h ! i)))"

text \<open>
  \<open>matches agent_filter t\<close>: the entry \<open>t\<close> is eligible for a dequeue with this filter
  argument.  Without a filter (\<open>None\<close>, or the empty string, which \<open>not agent_filter\<close>
  treats alike) every entry is; with a filter, the entries of that agent.
\<close>

definition matches :: "string option \<Rightarrow> scored_task \<Rightarrow> bool" where
  "matches agent_filter t =
     (agent_filter = None \<or> agent_filter = Some [] \<or> agent (sc_task_meta t) = agent_filter)"

definition clear :: "scheduler \<Rightarrow> scheduler" where
  "clear s = s\<lparr>heap := [],
               sched_stats := (sched_stats s)\<lparr>current_queue_size := 0, avg_score := 0\<rparr>\<rparr>"

text \<open>
  The queue states: what the scheduler can be in, starting from its constructor, under
  its own operations and under the runtime-estimate updates of the workers.
\<close>

inductive queue_state :: "scheduler \<Rightarrow> bool" where
  qs_init: "queue_state (Scheduler_init config st)"
| qs_enqueue: "queue_state s \<Longrightarrow> queue_state (snd (enqueue s t_score t_enq tm))"
| qs_dequeue: "queue_state s \<Longrightarrow> queue_state (snd (dequeue s agent_filter))"
| qs_remove: "queue_state s \<Longrightarrow> queue_state (snd (remove_task s tid))"
| qs_clear: "queue_state s \<Longrightarrow> queue_state (clear s)"
| qs_ert: "queue_state s \<Longrightarrow> queue_state (s\<lparr>sched_redis := st\<rparr>)"

definition tm_B :: task_meta where
  "tm_B = tm_empty\<lparr>task_id := Some ''B'', run_id := Some ''W'', agent := Some ''Y'',
                    action := Some ''run''\<rparr>"

definition entry_A :: scored_task where
  "entry_A = \<lparr> sc_score = - (61 / 60), sc_enqueue_time = 5, sc_task_meta = tm_A \<rparr>"

definition entry_B :: scored_task where
  "entry_B = \<lparr> sc_score = - (61 / 60), sc_enqueue_time = 6, sc_task_meta = tm_B \<rparr>"

definition sched_one :: scheduler where
  "sched_one = snd (enqueue sched_empty 5 5 tm_A)"

definition sched_dup :: scheduler where
  "sched_dup = snd (enqueue sched_one 5 5 tm_A)"

definition sched_two :: scheduler where
  "sched_two = snd (enqueue sched_one 6 6 tm_B)"

section \<open>worker_pool.py: WorkerPool\<close>

text \<open>
  What the HTTP call of \<open>_call_agent\<close> yields.  \<open>Response status body\<close> is a response
  whose body the code could read: \<open>body\<close> is what \<open>response.json()\<close> returns when the
  status is 200 and what \<open>response.text()\<close> returns otherwise.  \<open>BodyError msg\<close> is a
  response with status 200 on which \<open>response.json()\<close> raises, the body being no JSON
  or not served as \<open>application/json\<close>; \<open>msg\<close> is the message of that exception.
  \<open>TransportError msg\<close> is an exception of the HTTP client (timeout, refused
  connection) with its message.
\<close>

datatype agent_response = Response nat string | BodyError string | TransportError string

record event =
  ev_type :: string
  ev_task_id :: "string option"
  ev_run_id :: "string option"
  ev_agent :: string
  ev_task_meta :: task_meta
  ev_result :: "string option"
  ev_error :: "string option"
  ev_reason :: "string option"

record worker_stats =
  tasks_executed :: int
  tasks_succeeded :: int
  tasks_failed :: int
  total_runtime_s :: real
  last_task_time :: "real option"
  is_active :: bool

record worker_pool =
  wp_agent :: string
  wp_scheduler :: scheduler
  wp_retry_tracker :: retry_tracker
  wp_session :: bool
  wp_worker_stats :: "worker_stats list"
  wp_events :: "event list"

text \<open>Decimal rendering of a status code, as the f-string does.\<close>

fun str_nat :: "nat \<Rightarrow> string" where
  "str_nat n =
     (if n < 10 then [char_of (48 + n)]
      else str_nat (n div 10) @ [char_of (48 + n mod 10)])"

declare str_nat.simps [simp del]

definition emit_event ::
  "worker_pool \<Rightarrow> string \<Rightarrow> task_meta \<Rightarrow> string option \<Rightarrow> string option \<Rightarrow> string option
     \<Rightarrow> worker_pool" where
  "emit_event wp event_type tm result err reason =
     wp\<lparr>wp_events := wp_events wp @
          [\<lparr> ev_type = event_type, ev_task_id = task_id tm, ev_run_id = run_id tm,
             ev_agent = wp_agent wp, ev_task_meta = tm,
             ev_result = result, ev_error = err, ev_reason = reason \<rparr>]\<rparr>"

text \<open>
  \<open>_is_workflow_cancelled\<close> reads \<open>self.scheduler.redis.redis_client\<close>.  The scheduler
  always holds a \<open>RedisStore\<close> object, and that class has no attribute \<open>redis_client\<close>
  (its client is \<open>r\<close>), so the read raises \<open>AttributeError\<close>, which the enclosing
  \<open>except Exception\<close> turns into the result \<open>False\<close>.
\<close>

definition is_workflow_cancelled :: "worker_pool \<Rightarrow> string \<Rightarrow> bool" where
  "is_workflow_cancelled wp rid = False"

definition call_agent :: "worker_pool \<Rightarrow> task_meta \<Rightarrow> agent_response \<Rightarrow> string + string" where
  "call_agent wp tm resp =
     (if \<not> wp_session wp then Inl ''HTTP session not initialized''
      else (case resp of
              Response status body \<Rightarrow>
                if status = 200 then Inr body
                else Inl (''Agent returned '' @ str_nat status @ '': '' @ body)
            | BodyError msg \<Rightarrow> Inl msg
            | TransportError msg \<Rightarrow> Inl msg))"

definition get_run_id :: "task_meta \<Rightarrow> string" where
  "get_run_id tm = (case run_id tm of None \<Rightarrow> ''unknown'' | Some r \<Rightarrow> r)"

text \<open>
  \<open>_execute_task\<close>.  The clock readings are arguments: \<open>start_time\<close>, then \<open>t1\<close> (the
  runtime is \<open>t1 - start_time\<close>), \<open>t2\<close> (the completion or failure stamp) and \<open>t3\<close>
  (read inside \<open>schedule\<close>).  The result is \<open>None\<close> where \<open>self.worker_stats[worker_id]\<close>
  raises \<open>IndexError\<close>.
\<close>

definition execute_task ::
  "worker_pool \<Rightarrow> nat \<Rightarrow> task_meta \<Rightarrow> agent_response \<Rightarrow> real \<Rightarrow> real \<Rightarrow> real \<Rightarrow> real
     \<Rightarrow> (task_meta \<times> worker_pool) option" where
  "execute_task wp worker_id tm resp start_time t1 t2 t3 =
     (if worker_id \<ge> length (wp_worker_stats wp) then None
      else if is_workflow_cancelled wp (get_run_id tm) then
        Some (tm, emit_event wp ''TASK_CANCELLED'' tm None None (Some ''workflow_cancelled''))
      else
        (let stats = wp_worker_stats wp ! worker_id;
             tm1 = tm\<lparr>started_at := Some start_time\<rparr>;
             stats1 = stats\<lparr>last_task_time := Some start_time\<rparr>;
             wp1 = emit_event wp ''TASK_STARTED'' tm1 None None None
         in (case call_agent wp1 tm1 resp of
               Inr result \<Rightarrow>
                 (let runtime = t1 - start_time;
                      tm2 = tm1\<lparr>completed_at := Some t2, runtime_s := Some runtime\<rparr>;
                      stats2 = stats1\<lparr>tasks_executed := tasks_executed stats1 + 1,
                                      tasks_succeeded := tasks_succeeded stats1 + 1,
                                      total_runtime_s := total_runtime_s stats1 + runtime\<rparr>;
                      sch = wp_scheduler wp1;
                      sch' = sch\<lparr>sched_redis :=
                                snd (update_ert (sched_redis sch) (wp_agent wp1)
                                       (get_action tm2) runtime)\<rparr>;
                      wp2 = wp1\<lparr>wp_scheduler := sch',
                                wp_worker_stats := (wp_worker_stats wp1)[worker_id := stats2]\<rparr>
                  in Some (tm2, emit_event wp2 ''TASK_SUCCESS'' tm2 (Some result) None None))
             | Inl error_msg \<Rightarrow>
                 (let runtime = t1 - start_time;
                      stats2 = stats1\<lparr>tasks_executed := tasks_executed stats1 + 1,
                                      tasks_failed := tasks_failed stats1 + 1,
                                      total_runtime_s := total_runtime_s stats1 + runtime\<rparr>;
                      tm2 = tm1\<lparr>failed_at := Some t2, runtime_s := Some runtime,
                               error := Some error_msg\<rparr>;
                      wp2 = emit_event
                              (wp1\<lparr>wp_worker_stats := (wp_worker_stats wp1)[worker_id := stats2]\<rparr>)
                              ''TASK_FAILED'' tm2 None (Some error_msg) None;
                      (ok, tm3, rt') = schedule (wp_retry_tracker wp2) t3 tm2 (Some error_msg)
                  in Some (tm3, wp2\<lparr>wp_retry_tracker := rt'\<rparr>)))))"

definition worker_stats0 :: worker_stats where
  "worker_stats0 = \<lparr> tasks_executed = 0, tasks_succeeded = 0, tasks_failed = 0,
                     total_runtime_s = 0, last_task_time = None, is_active = False \<rparr>"

definition pool_X :: worker_pool where
  "pool_X = \<lparr> wp_agent = ''X'', wp_scheduler = sched_empty, wp_retry_tracker = rt_up,
              wp_session = True, wp_worker_stats = [worker_stats0], wp_events = [] \<rparr>"

section \<open>workflow_manager.py: WorkflowManager\<close>

datatype WorkflowStatus =
  WS_PENDING | WS_RUNNING | WS_COMPLETED | WS_FAILED | WS_CANCELLED | WS_NEEDS_HUMAN

fun ws_value :: "WorkflowStatus \<Rightarrow> string" where
  "ws_value WS_PENDING = ''pending''"
| "ws_value WS_RUNNING = ''running''"
| "ws_value WS_COMPLETED = ''completed''"
| "ws_value WS_FAILED = ''failed''"
| "ws_value WS_CANCELLED = ''cancelled''"
| "ws_value WS_NEEDS_HUMAN = ''needs_human''"

datatype TaskStatus =
  TS_PENDING | TS_QUEUED | TS_RUNNING | TS_COMPLETED | TS_FAILED | TS_CANCELLED | TS_RETRY

fun ts_value :: "TaskStatus \<Rightarrow> string" where
  "ts_value TS_PENDING = ''pending''"
| "ts_value TS_QUEUED = ''queued''"
| "ts_value TS_RUNNING = ''running''"
| "ts_value TS_COMPLETED = ''completed''"
| "ts_value TS_FAILED = ''failed''"
| "ts_value TS_CANCELLED = ''cancelled''"
| "ts_value TS_RETRY = ''retry''"

text \<open>
  The documents of the two collections.  A status is the string the code stores.
  \<open>td_id\<close> is the \<open>_id\<close> the database gives a task document.
\<close>

record task_definition =
  def_id :: string
  def_agent :: "string option"
  def_action :: "string option"
  def_params :: "string option"
  def_depends_on :: "string list option"
  def_priority :: "real option"
  def_deadline_ts :: "real option"

record wf_counters =
  total_tasks :: int
  completed_tasks :: int
  failed_tasks :: int

record workflow_doc =
  wf_run_id :: string
  wf_definition :: "task_definition list"
  wf_status :: string
  wf_created_at :: real
  wf_updated_at :: real
  wf_started_at :: "real option"
  wf_completed_at :: "real option"
  wf_counters :: wf_counters
  wf_cancellation_reason :: "string option"
  wf_cancelled_by :: "string option"
  wf_cancelled_at :: "real option"

record task_doc =
  td_id :: nat
  td_run_id :: string
  td_task_id :: string
  td_definition :: task_definition
  td_status :: string
  td_created_at :: real
  td_updated_at :: real
  td_queued_at :: "real option"
  td_completed_at :: "real option"
  td_retries :: int
  td_in_degree :: int
  td_original_in_degree :: int
  td_depends_on :: "string list"
  td_result :: "string option"
  td_cancellation_reason :: "string option"
  td_cancellation_requested :: bool

record mongo_db =
  runs :: "workflow_doc list"
  tasks :: "task_doc list"

record wm_event =
  we_type :: string
  we_run_id :: string
  we_task_id :: "string option"

record manager_stats =
  workflows_created :: int
  workflows_completed :: int
  workflows_failed :: int
  wm_tasks_enqueued :: int
  wm_tasks_completed :: int
  wm_tasks_failed :: int

text \<open>
  The exception the model has to carry, and the truth value of a database handle.
  The handle is an object of the database driver, which is not part of the sources.
  With PyMongo 4 and Motor 3, the driver behind \<open>AsyncIOMotorClient\<close>, \<open>bool\<close> of a
  database handle raises \<open>NotImplementedError\<close> (\<open>Raises\<close>); a handle of an earlier
  driver defines no truth value of its own and so is true (\<open>Truthy\<close>).  Which of the two
  the handle does is the field \<open>db_bool\<close> of the manager.  The comparisons
  \<open>self.db is not None\<close> never ask for the truth value.
\<close>

datatype py_error = NotImplementedError

datatype handle_bool = Truthy | Raises

text \<open>
  The manager.  \<open>db\<close> is \<open>None\<close> when there is no database handle.
  \<open>kafka_producer\<close>, when present, is the list of the keys of the messages produced.
\<close>

record workflow_manager =
  use_mongo :: bool
  db :: "mongo_db option"
  db_bool :: handle_bool
  in_memory_workflows :: "string \<rightharpoonup> workflow_doc"
  in_memory_tasks :: "string \<rightharpoonup> task_doc"
  engine_available :: bool
  kafka_producer :: "string list option"
  wm_stats :: manager_stats
  wm_events :: "wm_event list"

text \<open>
  The manager together with what it shares with the engine: the scheduler and the retry
  tracker of the engine, and the set \<open>cancelled_runs\<close> of the Redis server (\<open>None\<close>
  when the server is unreachable).
\<close>

record system =
  sys_mgr :: workflow_manager
  sys_sched :: scheduler
  sys_tracker :: retry_tracker
  sys_cancelled_runs :: "string list option"

text \<open>
  The truth value of \<open>self.db\<close>, as the tests \<open>if not self.db\<close> and
  \<open>if self.use_mongo and self.db\<close> ask for it.  The result is \<open>None\<close> when the test raises
  \<open>NotImplementedError\<close>, \<open>Some None\<close> when \<open>self.db\<close> is false, which is the case of no
  handle, and \<open>Some (Some d)\<close> when \<open>self.db\<close> is true and is the handle \<open>d\<close>.
\<close>

definition db_truth :: "workflow_manager \<Rightarrow> mongo_db option option" where
  "db_truth m =
     (case db m of
        None \<Rightarrow> Some None
      | Some d \<Rightarrow> (case db_bool m of Truthy \<Rightarrow> Some (Some d) | Raises \<Rightarrow> None))"

text \<open>\<open>update_one\<close> changes the first document that matches, \<open>update_many\<close> all of them.\<close>

fun update_one :: "('a \<Rightarrow> bool) \<Rightarrow> ('a \<Rightarrow> 'a) \<Rightarrow> 'a list \<Rightarrow> 'a list" where
  "update_one P f [] = []"
| "update_one P f (x # xs) = (if P x then f x # xs else x # update_one P f xs)"

definition update_many :: "('a \<Rightarrow> bool) \<Rightarrow> ('a \<Rightarrow> 'a) \<Rightarrow> 'a list \<Rightarrow> 'a list" where
  "update_many P f xs = map (\<lambda>x. if P x then f x else x) xs"

definition find_one :: "('a \<Rightarrow> bool) \<Rightarrow> 'a list \<Rightarrow> 'a option" where
  "find_one P xs = List.find P xs"

definition wm_emit :: "workflow_manager \<Rightarrow> string \<Rightarrow> string \<Rightarrow> string option \<Rightarrow> workflow_manager" where
  "wm_emit m ty rid tid =
     m\<lparr>wm_events := wm_events m @ [\<lparr> we_type = ty, we_run_id = rid, we_task_id = tid \<rparr>]\<rparr>"

definition task_key :: "string \<Rightarrow> string \<Rightarrow> string" where
  "task_key rid tid = rid @ '':'' @ tid"

text \<open>
  \<open>_create_task_documents\<close> and \<open>init_workflow\<close>.  The run id, which the code derives
  from the clock, is an argument.  All clock readings of one call are the one value
  \<open>now\<close>.
\<close>

definition new_task_doc :: "real \<Rightarrow> string \<Rightarrow> nat \<Rightarrow> task_definition \<Rightarrow> task_doc" where
  "new_task_doc now rid n task =
     (let deps = (case def_depends_on task of None \<Rightarrow> [] | Some ds \<Rightarrow> ds)
      in \<lparr> td_id = n, td_run_id = rid, td_task_id = def_id task, td_definition = task,
           td_status = ts_value TS_PENDING, td_created_at = now, td_updated_at = now,
           td_queued_at = None, td_completed_at = None, td_retries = 0,
           td_in_degree = int (length deps), td_original_in_degree = int (length deps),
           td_depends_on = deps, td_result = None, td_cancellation_reason = None,
           td_cancellation_requested = False \<rparr>)"

definition create_task_documents ::
  "workflow_manager \<Rightarrow> real \<Rightarrow> string \<Rightarrow> task_definition list \<Rightarrow> workflow_manager" where
  "create_task_documents m now rid task_defs =
     (case (if use_mongo m then db m else None) of
        Some d \<Rightarrow>
          m\<lparr>db := Some (d\<lparr>tasks := tasks d @
                 map (\<lambda>(i, task). new_task_doc now rid (length (tasks d) + i) task)
                     (enumerate 0 task_defs)\<rparr>)\<rparr>
      | None \<Rightarrow>
          m\<lparr>in_memory_tasks :=
               foldl (\<lambda>mp (i, task). mp(task_key rid (def_id task) \<mapsto> new_task_doc now rid i task))
                     (in_memory_tasks m) (enumerate 0 task_defs)\<rparr>)"

definition init_workflow ::
  "workflow_manager \<Rightarrow> real \<Rightarrow> string \<Rightarrow> task_definition list \<Rightarrow> workflow_manager" where
  "init_workflow m now rid workflow_def =
     (let workflow_doc =
            \<lparr> wf_run_id = rid, wf_definition = workflow_def,
              wf_status = ws_value WS_PENDING, wf_created_at = now, wf_updated_at = now,
              wf_started_at = None, wf_completed_at = None,
              wf_counters = \<lparr> total_tasks = int (length workflow_def),
                              completed_tasks = 0, failed_tasks = 0 \<rparr>,
              wf_cancellation_reason = None, wf_cancelled_by = None, wf_cancelled_at = None \<rparr>;
          m1 = (case (if use_mongo m then db m else None) of
                  Some d \<Rightarrow> m\<lparr>db := Some (d\<lparr>runs := runs d @ [workflow_doc]\<rparr>)\<rparr>
                | None \<Rightarrow> m\<lparr>in_memory_workflows := (in_memory_workflows m)(rid \<mapsto> workflow_doc)\<rparr>);
          m2 = create_task_documents m1 now rid workflow_def;
          m3 = m2\<lparr>wm_stats := (wm_stats m2)\<lparr>workflows_created :=
                                    workflows_created (wm_stats m2) + 1\<rparr>\<rparr>
      in wm_emit m3 ''workflow_created'' rid None)"

text \<open>
  Modelled from the spec: the module function \<open>enqueue_task\<close> of the \<open>workflow_engine\<close>
  package, which \<open>_enqueue_task\<close> calls, is not among the sources; the specification has
  the coordinator push a ready task into the scheduler, so the call is the
  \<open>enqueue\<close> of the engine's scheduler.
\<close>

definition engine_enqueue_task :: "scheduler \<Rightarrow> real \<Rightarrow> task_meta \<Rightarrow> bool \<times> scheduler" where
  "engine_enqueue_task sch now tm = enqueue sch now now tm"

definition task_meta_of :: "real \<Rightarrow> task_doc \<Rightarrow> task_meta" where
  "task_meta_of now task =
     \<lparr> task_id = Some (td_task_id task), run_id = Some (td_run_id task),
       agent = def_agent (td_definition task), action = def_action (td_definition task),
       params = def_params (td_definition task),
       depends_on = Some (case def_depends_on (td_definition task) of None \<Rightarrow> [] | Some ds \<Rightarrow> ds),
       user_priority = Some (case def_priority (td_definition task) of None \<Rightarrow> 0.5 | Some p \<Rightarrow> p),
       deadline_ts = def_deadline_ts (td_definition task),
       retries = Some (td_retries task), attempt = Some (td_retries task + 1),
       metadata = None, timestamp = Some now,
       last_error = None, retry_timestamp = None, started_at = None, completed_at = None,
       failed_at = None, runtime_s = None, error = None \<rparr>"

definition enqueue_task_doc :: "system \<Rightarrow> real \<Rightarrow> task_doc \<Rightarrow> system" where
  "enqueue_task_doc sys now task =
     (let m = sys_mgr sys;
          m1 = (case db m of
                  None \<Rightarrow> m
                | Some d \<Rightarrow>
                    m\<lparr>db := Some (d\<lparr>tasks :=
                           update_one (\<lambda>t. td_id t = td_id task)
                             (\<lambda>t. t\<lparr>td_status := ts_value TS_QUEUED, td_queued_at := Some now,
                                    td_updated_at := now\<rparr>)
                             (tasks d)\<rparr>)\<rparr>);
          tm = task_meta_of now task;
          (enqueue_success, sch) =
             (if engine_available m1 then engine_enqueue_task (sys_sched sys) now tm
              else (False, sys_sched sys));
          m2 = (if \<not> enqueue_success then
                  (case kafka_producer m1 of
                     None \<Rightarrow> m1
                   | Some msgs \<Rightarrow> m1\<lparr>kafka_producer := Some (msgs @ [td_task_id task])\<rparr>)
                else m1);
          m3 = m2\<lparr>wm_stats := (wm_stats m2)\<lparr>wm_tasks_enqueued :=
                                    wm_tasks_enqueued (wm_stats m2) + 1\<rparr>\<rparr>
      in sys\<lparr>sys_mgr := wm_emit m3 ''task_queued'' (td_run_id task) (Some (td_task_id task)),
             sys_sched := sch\<rparr>)"

text \<open>
  \<open>enqueue_initial_tasks\<close> begins with \<open>if not self.db\<close>.  Without a handle it logs a
  warning and returns.  With a handle whose truth value raises, the exception leaves
  the method through \<open>except Exception ... raise\<close> before anything is read or written;
  the first component of the result is the exception that leaves the method, if any.
\<close>

definition enqueue_initial_tasks ::
  "system \<Rightarrow> real \<Rightarrow> string \<Rightarrow> py_error option \<times> system" where
  "enqueue_initial_tasks sys now rid =
     (case db_truth (sys_mgr sys) of
        None \<Rightarrow> (Some NotImplementedError, sys)
      | Some None \<Rightarrow> (None, sys)
      | Some (Some d) \<Rightarrow>
          (None,
           foldl (\<lambda>s task. enqueue_task_doc s now task) sys
             (filter (\<lambda>t. td_run_id t = rid \<and> td_in_degree t = 0
                           \<and> td_status t = ts_value TS_PENDING) (tasks d))))"

text \<open>
  \<open>start_workflow\<close> writes the status \<open>running\<close> behind the test \<open>self.db is not None\<close>,
  then calls \<open>enqueue_initial_tasks\<close>; an exception from there is caught by
  \<open>except Exception\<close>, which returns \<open>False\<close> with the status already written and the
  event \<open>workflow_started\<close> not emitted.
\<close>

definition start_workflow :: "system \<Rightarrow> real \<Rightarrow> string \<Rightarrow> bool \<times> system" where
  "start_workflow sys now rid =
     (let m = sys_mgr sys;
          m1 = (case db m of
                  None \<Rightarrow> m
                | Some d \<Rightarrow>
                    m\<lparr>db := Some (d\<lparr>runs :=
                           update_one (\<lambda>w. wf_run_id w = rid)
                             (\<lambda>w. w\<lparr>wf_status := ws_value WS_RUNNING, wf_started_at := Some now,
                                    wf_updated_at := now\<rparr>)
                             (runs d)\<rparr>)\<rparr>);
          (exn, sys1) = enqueue_initial_tasks (sys\<lparr>sys_mgr := m1\<rparr>) now rid
      in (case exn of
            Some e \<Rightarrow> (False, sys1)
          | None \<Rightarrow> (True, sys1\<lparr>sys_mgr := wm_emit (sys_mgr sys1) ''workflow_started'' rid None\<rparr>)))"

text \<open>
  \<open>_process_dependent_tasks\<close> and \<open>_check_workflow_completion\<close> use \<open>self.db\<close> without a
  test.  Their only caller is \<open>handle_task_completion\<close>, behind its test of the handle,
  so they run with a handle present; the case without one is not reached.
\<close>

definition process_dependent_tasks :: "system \<Rightarrow> real \<Rightarrow> string \<Rightarrow> string \<Rightarrow> system" where
  "process_dependent_tasks sys now rid completed_task_id =
     (case db (sys_mgr sys) of
        None \<Rightarrow> sys
      | Some d0 \<Rightarrow>
          foldl
            (\<lambda>s task.
               (case db (sys_mgr s) of
                  None \<Rightarrow> s
                | Some d \<Rightarrow>
                    (let new_in_degree = td_in_degree task - 1;
                         d1 = d\<lparr>tasks := update_one (\<lambda>t. td_id t = td_id task)
                                  (\<lambda>t. t\<lparr>td_in_degree := new_in_degree, td_updated_at := now\<rparr>)
                                  (tasks d)\<rparr>;
                         s1 = s\<lparr>sys_mgr := (sys_mgr s)\<lparr>db := Some d1\<rparr>\<rparr>
                     in if new_in_degree = 0 then
                          (case find_one (\<lambda>t. td_id t = td_id task) (tasks d1) of
                             None \<Rightarrow> s1
                           | Some updated_task \<Rightarrow> enqueue_task_doc s1 now updated_task)
                        else s1)))
            sys
            (filter (\<lambda>t. td_run_id t = rid \<and> completed_task_id \<in> set (td_depends_on t)
                          \<and> td_status t = ts_value TS_PENDING) (tasks d0)))"

definition check_workflow_completion :: "workflow_manager \<Rightarrow> real \<Rightarrow> string \<Rightarrow> workflow_manager" where
  "check_workflow_completion m now rid =
     (case db m of
        None \<Rightarrow> m
      | Some d \<Rightarrow>
          (case find_one (\<lambda>w. wf_run_id w = rid) (runs d) of
             None \<Rightarrow> m
           | Some workflow \<Rightarrow>
               (let total = total_tasks (wf_counters workflow);
                    completed = completed_tasks (wf_counters workflow);
                    failed = failed_tasks (wf_counters workflow)
                in if completed + failed \<ge> total then
                     (if failed > 0 then
                        wm_emit
                          (m\<lparr>db := Some (d\<lparr>runs := update_one (\<lambda>w. wf_run_id w = rid)
                                    (\<lambda>w. w\<lparr>wf_status := ws_value WS_FAILED,
                                           wf_completed_at := Some now, wf_updated_at := now\<rparr>)
                                    (runs d)\<rparr>),
                             wm_stats := (wm_stats m)\<lparr>workflows_failed :=
                                           workflows_failed (wm_stats m) + 1\<rparr>\<rparr>)
                          ''workflow_failed'' rid None
                      else
                        wm_emit
                          (m\<lparr>db := Some (d\<lparr>runs := update_one (\<lambda>w. wf_run_id w = rid)
                                    (\<lambda>w. w\<lparr>wf_status := ws_value WS_COMPLETED,
                                           wf_completed_at := Some now, wf_updated_at := now\<rparr>)
                                    (runs d)\<rparr>),
                             wm_stats := (wm_stats m)\<lparr>workflows_completed :=
                                           workflows_completed (wm_stats m) + 1\<rparr>\<rparr>)
                          ''workflow_completed'' rid None)
                   else m)))"

text \<open>
  \<open>handle_task_completion\<close>.  The result payload is \<open>None\<close> for a result that is absent
  or empty (\<open>if result:\<close>).  The method begins with \<open>if not self.db\<close>: without a handle
  it logs a warning and returns; with a handle whose truth value raises, the exception
  leaves the method through \<open>except Exception ... raise\<close> before any write.  The first
  component of the result is the exception that leaves the method, if any.
\<close>

definition handle_task_completion ::
  "system \<Rightarrow> real \<Rightarrow> string \<Rightarrow> string \<Rightarrow> bool \<Rightarrow> string option
     \<Rightarrow> py_error option \<times> system" where
  "handle_task_completion sys now rid tid success result =
     (case db_truth (sys_mgr sys) of
        None \<Rightarrow> (Some NotImplementedError, sys)
      | Some None \<Rightarrow> (None, sys)
      | Some (Some d) \<Rightarrow>
          (let m = sys_mgr sys;
               new_status = (if success then ts_value TS_COMPLETED else ts_value TS_FAILED);
               tasks1 = update_one (\<lambda>t. td_run_id t = rid \<and> td_task_id t = tid)
                          (\<lambda>t. t\<lparr>td_status := new_status, td_completed_at := Some now,
                                 td_updated_at := now,
                                 td_result := (case result of None \<Rightarrow> td_result t
                                               | Some r \<Rightarrow> Some r)\<rparr>)
                          (tasks d);
               runs1 = update_one (\<lambda>w. wf_run_id w = rid)
                         (\<lambda>w. w\<lparr>wf_counters :=
                                  (if success
                                   then (wf_counters w)\<lparr>completed_tasks :=
                                           completed_tasks (wf_counters w) + 1\<rparr>
                                   else (wf_counters w)\<lparr>failed_tasks :=
                                           failed_tasks (wf_counters w) + 1\<rparr>),
                                wf_updated_at := now\<rparr>)
                         (runs d);
               m1 = m\<lparr>db := Some (d\<lparr>runs := runs1, tasks := tasks1\<rparr>),
                      wm_stats := (if success
                                   then (wm_stats m)\<lparr>wm_tasks_completed :=
                                           wm_tasks_completed (wm_stats m) + 1\<rparr>
                                   else (wm_stats m)\<lparr>wm_tasks_failed :=
                                           wm_tasks_failed (wm_stats m) + 1\<rparr>)\<rparr>;
               sys1 = sys\<lparr>sys_mgr := m1\<rparr>;
               sys2 = (if success then process_dependent_tasks sys1 now rid tid else sys1);
               m3 = check_workflow_completion (sys_mgr sys2) now rid
           in (None,
               sys2\<lparr>sys_mgr := wm_emit m3 (if success then ''task_completed'' else ''task_failed'')
                                      rid (Some tid)\<rparr>)))"

text \<open>
  \<open>cancel_workflow\<close>: the class defines the method twice, and the second definition,
  modelled here, is the one the class keeps.  Its test is
  \<open>if self.use_mongo and self.db\<close>: with \<open>use_mongo\<close> false the handle is not asked; with
  \<open>use_mongo\<close> true and a handle whose truth value raises, the enclosing
  \<open>except Exception\<close> returns \<open>False\<close> before anything is read or written.  On the database
  path the method ends with \<open>await self._send_event(...)\<close>; the class defines no
  \<open>_send_event\<close>, so that line raises \<open>AttributeError\<close>, and the same \<open>except Exception\<close>
  returns \<open>False\<close>, after the updates above it have been made.
\<close>

definition cancel_workflow ::
  "system \<Rightarrow> real \<Rightarrow> string \<Rightarrow> string \<Rightarrow> bool \<Rightarrow> string \<Rightarrow> bool \<times> system" where
  "cancel_workflow sys now rid reason force cancelled_by =
     (let m = sys_mgr sys
      in (case (if use_mongo m then db_truth m else Some None) of
            None \<Rightarrow> (False, sys)
          | Some (Some d) \<Rightarrow>
              (case find_one (\<lambda>w. wf_run_id w = rid) (runs d) of
                 None \<Rightarrow> (False, sys)
               | Some workflow \<Rightarrow>
                   if wf_status workflow \<in> set [''COMPLETED'', ''FAILED'', ''CANCELLED'']
                   then (False, sys)
                   else
                     (let runs1 = update_one (\<lambda>w. wf_run_id w = rid)
                                    (\<lambda>w. w\<lparr>wf_status := ''CANCELLING'',
                                           wf_cancellation_reason := Some reason,
                                           wf_cancelled_by := Some cancelled_by,
                                           wf_cancelled_at := Some now,
                                           wf_updated_at := now\<rparr>)
                                    (runs d);
                          tasks1 = update_many
                                     (\<lambda>t. td_run_id t = rid
                                          \<and> td_status t \<in> set [''PENDING'', ''QUEUED''])
                                     (\<lambda>t. t\<lparr>td_status := ''CANCELLED'',
                                            td_cancellation_reason := Some reason,
                                            td_updated_at := now\<rparr>)
                                     (tasks d);
                          tasks2 = update_many
                                     (\<lambda>t. td_run_id t = rid \<and> td_status t = ''RUNNING'')
                                     (\<lambda>t. t\<lparr>td_cancellation_requested := True,
                                            td_cancellation_reason := Some reason,
                                            td_updated_at := now\<rparr>)
                                     tasks1;
                          cancelled = (case sys_cancelled_runs sys of
                                         None \<Rightarrow> None
                                       | Some cs \<Rightarrow> Some (List.insert rid cs))
                      in (False,
                          sys\<lparr>sys_mgr := m\<lparr>db := Some (d\<lparr>runs := runs1, tasks := tasks2\<rparr>)\<rparr>,
                              sys_cancelled_runs := cancelled\<rparr>)))
          | Some None \<Rightarrow>
              (case in_memory_workflows m rid of
                 None \<Rightarrow> (False, sys)
               | Some workflow \<Rightarrow>
                   (True,
                    sys\<lparr>sys_mgr := m\<lparr>
                      in_memory_workflows := (in_memory_workflows m)(rid \<mapsto>
                         workflow\<lparr>wf_status := ''CANCELLED'',
                                  wf_cancellation_reason := Some reason,
                                  wf_cancelled_by := Some cancelled_by,
                                  wf_cancelled_at := Some now\<rparr>),
                      in_memory_tasks :=
                        (\<lambda>k. map_option
                                (\<lambda>t. if td_run_id t = rid
                                          \<and> td_status t \<in> set [''PENDING'', ''QUEUED'', ''RUNNING'']
                                       then t\<lparr>td_status := ''CANCELLED'',
                                              td_cancellation_reason := Some reason\<rparr>
                                       else t)
                                (in_memory_tasks m k))\<rparr>\<rparr>))))"

text \<open>Observations and concrete states for the closed theorems on the manager.\<close>

definition task_statuses :: "system \<Rightarrow> (string \<times> string) list" where
  "task_statuses sys =
     (case db (sys_mgr sys) of
        None \<Rightarrow> []
      | Some d \<Rightarrow> map (\<lambda>t. (td_task_id t, td_status t)) (tasks d))"

definition run_statuses :: "system \<Rightarrow> (string \<times> string) list" where
  "run_statuses sys =
     (case db (sys_mgr sys) of
        None \<Rightarrow> []
      | Some d \<Rightarrow> map (\<lambda>w. (wf_run_id w, wf_status w)) (runs d))"

definition def_A :: task_definition where
  "def_A = \<lparr> def_id = ''A'', def_agent = Some ''X'', def_action = Some ''run'',
             def_params = None, def_depends_on = None, def_priority = None,
             def_deadline_ts = None \<rparr>"

definition def_B :: task_definition where
  "def_B = def_A\<lparr>def_id := ''B'', def_depends_on := Some [''A'']\<rparr>"

definition def_C :: task_definition where
  "def_C = def_A\<lparr>def_id := ''C'', def_depends_on := Some [''B'']\<rparr>"

definition mgr_stats0 :: manager_stats where
  "mgr_stats0 = \<lparr> workflows_created = 0, workflows_completed = 0, workflows_failed = 0,
                  wm_tasks_enqueued = 0, wm_tasks_completed = 0, wm_tasks_failed = 0 \<rparr>"

text \<open>
  A manager with a database: the handle is that of the driver the module imports, whose
  truth value raises; \<open>mgr_mongo_truthy\<close> is the same manager with a handle of an
  earlier driver.  The engine's \<open>enqueue_task\<close> is not available and tasks go to Kafka.
\<close>

definition mgr_mongo :: workflow_manager where
  "mgr_mongo = \<lparr> use_mongo = True, db = Some \<lparr> runs = [], tasks = [] \<rparr>, db_bool = Raises,
                 in_memory_workflows = Map.empty, in_memory_tasks = Map.empty,
                 engine_available = False, kafka_producer = Some [],
                 wm_stats = mgr_stats0, wm_events = [] \<rparr>"

definition mgr_mongo_truthy :: workflow_manager where
  "mgr_mongo_truthy = mgr_mongo\<lparr>db_bool := Truthy\<rparr>"

definition sys_of :: "workflow_manager \<Rightarrow> system" where
  "sys_of m = \<lparr> sys_mgr = m, sys_sched = sched_empty, sys_tracker = rt_up,
                sys_cancelled_runs = Some [] \<rparr>"

text \<open>
  The chain \<open>A \<rightarrow> B \<rightarrow> C\<close>: \<open>init_workflow\<close>, then \<open>start_workflow\<close>, on either
  manager; then the coordinator is told that \<open>A\<close> failed.
\<close>

definition sys_chain :: system where
  "sys_chain =
     snd (start_workflow (sys_of (init_workflow mgr_mongo 1 ''W'' [def_A, def_B, def_C])) 2 ''W'')"

definition sys_chain_truthy :: system where
  "sys_chain_truthy =
     snd (start_workflow
            (sys_of (init_workflow mgr_mongo_truthy 1 ''W'' [def_A, def_B, def_C])) 2 ''W'')"

text \<open>
  A manager without a database, on the in-memory fallback: the run \<open>W\<close> of the tasks
  \<open>A\<close> and \<open>B\<close>, made by \<open>init_workflow\<close> and started by \<open>start_workflow\<close>.
\<close>

definition mgr_memory :: workflow_manager where
  "mgr_memory = \<lparr> use_mongo = False, db = None, db_bool = Raises,
                  in_memory_workflows = Map.empty, in_memory_tasks = Map.empty,
                  engine_available = False, kafka_producer = None,
                  wm_stats = mgr_stats0, wm_events = [] \<rparr>"

definition sys_memory :: system where
  "sys_memory =
     snd (start_workflow (sys_of (init_workflow mgr_memory 1 ''W'' [def_A, def_B])) 2 ''W'')"

section \<open>Verified properties\<close>

subsection \<open>Retry scheduling\<close>

lemma schedule_abandon:
  "max_retries rt \<le> get_retries tm \<Longrightarrow>
   schedule rt now tm err =
     (False, tm, rt\<lparr>rt_stats := (rt_stats rt)\<lparr>retries_abandoned :=
                                   retries_abandoned (rt_stats rt) + 1\<rparr>\<rparr>)"
  by (simp add: schedule_def)

text \<open>
  Claim C10, as stated, fails: it ends with the words
  \<open>abandonment leaves all state unchanged\<close>, and the abandon branch writes the statistics of the tracker.  Task \<open>A\<close> has used its
  three retries; \<open>schedule\<close> returns false, and the counter \<open>retries_abandoned\<close> of the
  tracker, 0 before the call, is 1 after it.
\<close>

theorem schedule_abandon_counterexample:
  "fst (schedule rt_up 100 (tm_A\<lparr>retries := Some 3\<rparr>) (Some ''boom'')) = False
   \<and> retries_abandoned (rt_stats rt_up) = 0
   \<and> retries_abandoned
        (rt_stats (snd (snd (schedule rt_up 100 (tm_A\<lparr>retries := Some 3\<rparr>) (Some ''boom'')))))
       = 1"
  by (simp add: schedule_def rt_up_def RetryTracker_init_def default_retry_config_def
        get_retries_def)

text \<open>
  Claim C10, amended.  When the retry count of the task metadata has reached
  \<open>max_retries\<close>, \<open>schedule\<close> returns false and hands the task metadata back exactly as
  it received it (so \<open>retries\<close>, \<open>last_error\<close> and \<open>retry_timestamp\<close> are not written);
  the tracker it leaves is the tracker it found with the counter \<open>retries_abandoned\<close>
  incremented by one and nothing else changed: the store with its delay queue, the
  retry configuration and the other counters are as they were.
\<close>

theorem schedule_abandon_effect:
  "max_retries rt \<le> get_retries tm \<longrightarrow>
     schedule rt now tm err =
       (False, tm, rt\<lparr>rt_stats := (rt_stats rt)\<lparr>retries_abandoned :=
                                     retries_abandoned (rt_stats rt) + 1\<rparr>\<rparr>)
     \<and> rt_redis (snd (snd (schedule rt now tm err))) = rt_redis rt"
  by (simp add: schedule_def)

theorem schedule_abandon_effect_witness:
  "max_retries rt_up \<le> get_retries (tm_A\<lparr>retries := Some 3\<rparr>)
   \<and> schedule rt_up 100 (tm_A\<lparr>retries := Some 3\<rparr>) (Some ''boom'')
       = (False, tm_A\<lparr>retries := Some 3\<rparr>,
          rt_up\<lparr>rt_stats := (rt_stats rt_up)\<lparr>retries_abandoned := 1\<rparr>\<rparr>)
   \<and> rt_redis (snd (snd (schedule rt_up 100 (tm_A\<lparr>retries := Some 3\<rparr>) (Some ''boom''))))
       = Some redis_empty"
proof -
  have h: "max_retries rt_up \<le> get_retries (tm_A\<lparr>retries := Some 3\<rparr>)"
    by (simp add: rt_up_def RetryTracker_init_def default_retry_config_def get_retries_def)
  have z: "retries_abandoned (rt_stats rt_up) = 0" "rt_redis rt_up = Some redis_empty"
    by (simp_all add: rt_up_def RetryTracker_init_def)
  show ?thesis
    using schedule_abandon_effect[of rt_up "tm_A\<lparr>retries := Some 3\<rparr>" 100 "Some ''boom''"] h z
    by simp
qed

lemma pow2_nonneg: "0 \<le> n \<Longrightarrow> pow2 n = 2 ^ nat n"
  by (simp add: pow2_def)

lemma schedule_store_up:
  assumes "get_retries tm < max_retries rt" and "rt_redis rt = Some d"
  shows "schedule rt now tm err =
           (True,
            tm\<lparr>retries := Some (get_retries tm + 1), last_error := Some err,
               retry_timestamp := Some (now + backoff_delay rt (get_retries tm))\<rparr>,
            rt\<lparr>rt_redis := Some (d\<lparr>retry_q := AList.update (get_task_id tm)
                                   (now + backoff_delay rt (get_retries tm)) (retry_q d)\<rparr>),
               rt_stats := (rt_stats rt)\<lparr>retries_scheduled := retries_scheduled (rt_stats rt) + 1,
                             current_pending := int (length (AList.update (get_task_id tm)
                                   (now + backoff_delay rt (get_retries tm)) (retry_q d)))\<rparr>\<rparr>)"
  using assms by (simp add: schedule_def zadd_retry_def get_pending_count_def Let_def)

lemma schedule_store_down:
  assumes "get_retries tm < max_retries rt" and "rt_redis rt = None"
  shows "schedule rt now tm err =
           (False,
            tm\<lparr>retries := Some (get_retries tm + 1), last_error := Some err,
               retry_timestamp := Some (now + backoff_delay rt (get_retries tm))\<rparr>,
            rt\<lparr>rt_redis := None\<rparr>)"
  using assms by (simp add: schedule_def zadd_retry_def Let_def)

text \<open>
  Claim C4, as stated, fails: with the retry count below \<open>max_retries\<close> but the delay-queue
  store unreachable (\<open>self.r = None\<close>), \<open>schedule\<close> returns false and queues nothing.
\<close>

theorem schedule_store_down_counterexample:
  "get_retries tm_A < max_retries rt_down
   \<and> fst (schedule rt_down 100 tm_A (Some ''boom'')) = False
   \<and> rt_redis (snd (snd (schedule rt_down 100 tm_A (Some ''boom'')))) = None"
  by (simp add: schedule_store_down rt_down_def RetryTracker_init_def default_retry_config_def
        get_retries_def tm_A_def tm_empty_def)

text \<open>
  Claim C4, amended.  If the retry count is at least \<open>max_retries\<close> (default 3),
  \<open>schedule\<close> returns false.  Otherwise it computes
  \<open>delay = min (backoff_base * 2^retries) backoff_max\<close> (defaults 15 and 300), writes
  \<open>retries + 1\<close>, the error and the due time \<open>now + delay\<close> to the task metadata, and
  then: with a reachable store it sets the entry of \<open>task_id\<close> in the delay queue to
  \<open>now + delay\<close>, leaves the other entries alone and returns true; with an unreachable
  store it queues nothing and returns false.
\<close>

theorem schedule_retry_or_abandon:
  "(max_retries rt \<le> get_retries tm \<longrightarrow> fst (schedule rt now tm err) = False)
   \<and> (get_retries tm < max_retries rt \<longrightarrow>
        backoff_delay rt (get_retries tm)
          = min (backoff_base_s rt * pow2 (get_retries tm)) (backoff_max_s rt)
        \<and> (0 \<le> get_retries tm \<longrightarrow> pow2 (get_retries tm) = 2 ^ nat (get_retries tm))
        \<and> fst (snd (schedule rt now tm err))
            = tm\<lparr>retries := Some (get_retries tm + 1), last_error := Some err,
                 retry_timestamp := Some (now + backoff_delay rt (get_retries tm))\<rparr>
        \<and> (\<forall>d. rt_redis rt = Some d \<longrightarrow>
              fst (schedule rt now tm err) = True
              \<and> (\<exists>d'. rt_redis (snd (snd (schedule rt now tm err))) = Some d'
                   \<and> retry_q d' = AList.update (get_task_id tm)
                                     (now + backoff_delay rt (get_retries tm)) (retry_q d)
                   \<and> map_of (retry_q d') (get_task_id tm)
                        = Some (now + backoff_delay rt (get_retries tm))
                   \<and> (\<forall>k. k \<noteq> get_task_id tm \<longrightarrow>
                          map_of (retry_q d') k = map_of (retry_q d) k)))
        \<and> (rt_redis rt = None \<longrightarrow>
              fst (schedule rt now tm err) = False
              \<and> rt_redis (snd (snd (schedule rt now tm err))) = None))
   \<and> max_retries (RetryTracker_init default_retry_config st) = 3
   \<and> backoff_base_s (RetryTracker_init default_retry_config st) = 15
   \<and> backoff_max_s (RetryTracker_init default_retry_config st) = 300"
proof -
  have abandon: "max_retries rt \<le> get_retries tm \<longrightarrow> fst (schedule rt now tm err) = False"
    by (simp add: schedule_abandon)
  have up: "rt_redis rt = Some d \<Longrightarrow> get_retries tm < max_retries rt \<Longrightarrow>
            fst (schedule rt now tm err) = True
            \<and> (\<exists>d'. rt_redis (snd (snd (schedule rt now tm err))) = Some d'
                 \<and> retry_q d' = AList.update (get_task_id tm)
                                   (now + backoff_delay rt (get_retries tm)) (retry_q d)
                 \<and> map_of (retry_q d') (get_task_id tm)
                      = Some (now + backoff_delay rt (get_retries tm))
                 \<and> (\<forall>k. k \<noteq> get_task_id tm \<longrightarrow>
                        map_of (retry_q d') k = map_of (retry_q d) k))" for d
    by (simp add: schedule_store_up update_conv')
  have down: "rt_redis rt = None \<Longrightarrow> get_retries tm < max_retries rt \<Longrightarrow>
              fst (schedule rt now tm err) = False
              \<and> rt_redis (snd (snd (schedule rt now tm err))) = None"
    by (simp add: schedule_store_down)
  have meta: "get_retries tm < max_retries rt \<Longrightarrow>
              fst (snd (schedule rt now tm err))
                = tm\<lparr>retries := Some (get_retries tm + 1), last_error := Some err,
                     retry_timestamp := Some (now + backoff_delay rt (get_retries tm))\<rparr>"
    by (cases "rt_redis rt") (simp_all add: schedule_store_up schedule_store_down)
  have dflt: "max_retries (RetryTracker_init default_retry_config st) = 3
              \<and> backoff_base_s (RetryTracker_init default_retry_config st) = 15
              \<and> backoff_max_s (RetryTracker_init default_retry_config st) = 300"
    by (simp add: RetryTracker_init_def default_retry_config_def)
  show ?thesis
    using abandon up down meta dflt by (simp add: backoff_delay_def pow2_nonneg)
qed

theorem schedule_retry_or_abandon_witness:
  "get_retries tm_A < max_retries rt_up
   \<and> rt_redis rt_up = Some redis_empty
   \<and> fst (schedule rt_up 100 tm_A (Some ''boom'')) = True
   \<and> retries (fst (snd (schedule rt_up 100 tm_A (Some ''boom'')))) = Some 1
   \<and> (\<exists>d'. rt_redis (snd (snd (schedule rt_up 100 tm_A (Some ''boom'')))) = Some d'
         \<and> retry_q d' = [(''A'', 115)])
   \<and> max_retries rt_up \<le> get_retries (tm_A\<lparr>retries := Some 3\<rparr>)
   \<and> fst (schedule rt_up 100 (tm_A\<lparr>retries := Some 3\<rparr>) (Some ''boom'')) = False"
proof -
  have a: "get_retries tm_A < max_retries rt_up"
    by (simp add: rt_up_def RetryTracker_init_def default_retry_config_def get_retries_def
          tm_A_def tm_empty_def)
  have b: "rt_redis rt_up = Some redis_empty"
    by (simp add: rt_up_def RetryTracker_init_def)
  have c: "max_retries rt_up \<le> get_retries (tm_A\<lparr>retries := Some 3\<rparr>)"
    by (simp add: rt_up_def RetryTracker_init_def default_retry_config_def get_retries_def)
  have d: "backoff_delay rt_up (get_retries tm_A) = 15"
    by (simp add: backoff_delay_def rt_up_def RetryTracker_init_def default_retry_config_def
          get_retries_def tm_A_def tm_empty_def pow2_def)
  have e: "get_task_id tm_A = ''A''"
    by (simp add: get_task_id_def tm_A_def tm_empty_def)
  have f: "get_retries tm_A = 0"
    by (simp add: get_retries_def tm_A_def tm_empty_def)
  show ?thesis
    using schedule_retry_or_abandon[of rt_up tm_A 100 "Some ''boom''" None]
          schedule_retry_or_abandon[of rt_up "tm_A\<lparr>retries := Some 3\<rparr>" 100 "Some ''boom''" None]
          a b c d e f
    by (auto simp add: redis_empty_def)
qed

subsection \<open>Priority score\<close>

lemma score_unfold:
  "score s now tm =
     - (alpha s / max (spec_ert s tm) 1
        + beta s * (case user_priority tm of None \<Rightarrow> 0.5 | Some p \<Rightarrow> p)
        + gamma s * (case deadline_ts tm of
                       None \<Rightarrow> 0
                     | Some d \<Rightarrow> if d \<noteq> 0 then 1 / max (d - now) 1 else 0))"
  by (simp add: score_def spec_ert_def get_ert_def Let_def split: option.splits)

text \<open>
  Claim C2, as stated, fails: a task metadata whose deadline is the timestamp \<open>0\<close>
  carries a deadline, so the stated urgency is \<open>1 / max (0 - now) 1 = 1\<close>, yet
  \<open>if deadline_ts:\<close> takes the no-deadline branch and the urgency term is absent.
\<close>

theorem score_zero_deadline_counterexample:
  "score sched_empty 100 (tm_A\<lparr>deadline_ts := Some 0\<rparr>) = - (61 / 60)
   \<and> spec_score sched_empty 100 (tm_A\<lparr>deadline_ts := Some 0\<rparr>) = - (241 / 60)"
  by (simp add: score_unfold spec_score_def spec_urgency_def spec_ert_def sched_empty_def
        Scheduler_init_def default_sched_config_def redis_empty_def tm_A_def tm_empty_def)

text \<open>
  Claim C2, amended.  For every task metadata whose deadline is absent or a nonzero
  timestamp, \<open>score\<close> returns \<open>-(alpha / max ERT 1 + beta * user_priority + gamma * urgency)\<close>
  with \<open>ERT\<close> the stored estimate of the (agent, action) pair or 60 when there is none,
  the user priority 0.5 when absent, and \<open>urgency = 1 / max (deadline - now) 1\<close> for a
  deadline and 0 without one.  A deadline equal to 0 counts as no deadline: the urgency
  is 0.
\<close>

theorem score_formula:
  "(deadline_ts tm \<noteq> Some 0 \<longrightarrow> score s now tm = spec_score s now tm)
   \<and> (deadline_ts tm = Some 0 \<longrightarrow>
        score s now tm
          = - (alpha s / max (spec_ert s tm) 1
               + beta s * (case user_priority tm of None \<Rightarrow> 0.5 | Some p \<Rightarrow> p)))
   \<and> (sched_redis s = None \<longrightarrow> spec_ert s tm = 60)
   \<and> (\<forall>d. sched_redis s = Some d \<longrightarrow>
         spec_ert s tm = (case ert d (ert_key (get_agent tm) (get_action tm)) of
                            None \<Rightarrow> 60 | Some e \<Rightarrow> e))"
  by (auto simp add: score_unfold spec_score_def spec_urgency_def spec_ert_def
        split: option.splits)

theorem score_formula_witness:
  "deadline_ts (tm_A\<lparr>deadline_ts := Some 160\<rparr>) \<noteq> Some 0
   \<and> score sched_empty 100 (tm_A\<lparr>deadline_ts := Some 160\<rparr>) = - (16 / 15)
   \<and> deadline_ts (tm_A\<lparr>deadline_ts := Some 0\<rparr>) = Some 0
   \<and> score sched_empty 100 (tm_A\<lparr>deadline_ts := Some 0\<rparr>) = - (61 / 60)
   \<and> sched_redis sched_empty = Some redis_empty
   \<and> spec_ert sched_empty tm_A = 60"
proof -
  have a: "deadline_ts (tm_A\<lparr>deadline_ts := Some 160\<rparr>) \<noteq> Some 0" by simp
  have b: "deadline_ts (tm_A\<lparr>deadline_ts := Some 0\<rparr>) = Some 0" by simp
  have c: "sched_redis sched_empty = Some redis_empty"
    by (simp add: sched_empty_def Scheduler_init_def)
  have d: "spec_score sched_empty 100 (tm_A\<lparr>deadline_ts := Some 160\<rparr>) = - (16 / 15)"
    by (simp add: spec_score_def spec_urgency_def spec_ert_def sched_empty_def
          Scheduler_init_def default_sched_config_def redis_empty_def tm_A_def tm_empty_def)
  have e: "spec_ert sched_empty (tm_A\<lparr>deadline_ts := Some 0\<rparr>) = 60"
          "spec_ert sched_empty tm_A = 60"
    by (simp_all add: spec_ert_def sched_empty_def Scheduler_init_def redis_empty_def)
  have f: "alpha sched_empty = 1" "beta sched_empty = 2"
          "user_priority (tm_A\<lparr>deadline_ts := Some 0\<rparr>) = None"
    by (simp_all add: sched_empty_def Scheduler_init_def default_sched_config_def
          tm_A_def tm_empty_def)
  show ?thesis
    using score_formula[of "tm_A\<lparr>deadline_ts := Some 160\<rparr>" sched_empty 100]
          score_formula[of "tm_A\<lparr>deadline_ts := Some 0\<rparr>" sched_empty 100]
          a b c d e f
    by simp
qed

subsection \<open>Runtime estimates\<close>

lemma execute_task_success:
  assumes "worker_id < length (wp_worker_stats wp)" and "wp_session wp"
  shows "\<exists>tm' wp'. execute_task wp worker_id tm (Response 200 body) s t1 t2 t3 = Some (tm', wp')
           \<and> sched_redis (wp_scheduler wp')
               = snd (update_ert (sched_redis (wp_scheduler wp)) (wp_agent wp)
                        (get_action tm) (t1 - s))
           \<and> ev_type (last (wp_events wp')) = ''TASK_SUCCESS''"
  using assms
  by (simp add: execute_task_def is_workflow_cancelled_def call_agent_def emit_event_def
        get_action_def Let_def)

text \<open>Rounding to the nearest double: the error, and how to evaluate it.\<close>

lemma round_half_even_error: "\<bar>of_int (round_half_even y) - y\<bar> \<le> 1/2"
  unfolding round_half_even_def Let_def by (auto simp add: abs_if) linarith+

lemma powr_powi: "2 powr (of_int e) = (2::real) powi e"
  by (rule powr_real_of_int') simp_all

lemma pow2_floor_log:
  assumes "0 < y"
  shows "2 powi \<lfloor>log 2 y\<rfloor> \<le> y"
proof -
  have "2 powr (of_int \<lfloor>log 2 y\<rfloor>) \<le> 2 powr (log 2 y)"
    by (simp add: powr_le_cancel_iff)
  also have "\<dots> = y" using assms by simp
  finally show ?thesis by (simp only: powr_powi)
qed

lemma floor_log_eqI:
  assumes "2 powi e \<le> y" "y < 2 powi (e + 1)"
  shows "\<lfloor>log 2 y\<rfloor> = e"
proof -
  have "(0::real) < 2 powi e" by simp
  then have y: "0 < y" using assms(1) by linarith
  have a: "2 powr (of_int e) \<le> y" "y < 2 powr (of_int (e + 1))"
    using assms by (simp_all only: powr_powi)
  have "of_int e \<le> log 2 y" using a(1) y by (simp add: le_log_iff)
  moreover have "log 2 y < of_int (e + 1)" using a(2) y by (simp only: log_less_iff)
  ultimately show ?thesis by (simp add: floor_eq_iff)
qed

lemma double_of_error: "\<bar>double_of x - x\<bar> \<le> 2 powi (- 53) * \<bar>x\<bar> + 2 powi (- 1075)"
proof (cases "x = 0")
  case True
  then show ?thesis by (simp add: double_of_def)
next
  case False
  define e where "e = max \<lfloor>log 2 \<bar>x\<bar>\<rfloor> (- 1022)"
  define q :: real where "q = 2 powi (e - 52)"
  have q: "0 < q" by (simp add: q_def)
  have f: "double_of x = of_int (round_half_even (x / q)) * q"
    using False by (simp add: double_of_def Let_def e_def q_def)
  have "double_of x - x = (of_int (round_half_even (x / q)) - x / q) * q"
    using q by (simp add: f field_simps)
  then have "\<bar>double_of x - x\<bar> = \<bar>of_int (round_half_even (x / q)) - x / q\<bar> * q"
    using q by (simp add: abs_mult)
  also have "\<dots> \<le> 1/2 * q" using round_half_even_error[of "x / q"] q
    by (intro mult_right_mono) simp_all
  also have "1/2 * q = 2 powi (e - 53)"
    by (simp add: q_def power_int_diff)
  finally have b: "\<bar>double_of x - x\<bar> \<le> 2 powi (e - 53)" .
  show ?thesis
  proof (cases "- 1022 \<le> \<lfloor>log 2 \<bar>x\<bar>\<rfloor>")
    case True
    then have ee: "e = \<lfloor>log 2 \<bar>x\<bar>\<rfloor>" by (simp add: e_def)
    have "2 powi e \<le> \<bar>x\<bar>" unfolding ee using pow2_floor_log[of "\<bar>x\<bar>"] False by simp
    then have "2 powi (e - 53) \<le> 2 powi (- 53) * \<bar>x\<bar>"
      by (simp add: power_int_diff power_int_minus field_simps)
    moreover have "(0::real) \<le> 2 powi (- 1075)" by simp
    ultimately show ?thesis using b by linarith
  next
    case False
    then have ee: "e = - 1022" by (simp add: e_def)
    have "(2::real) powi (e - 53) = 2 powi (- 1075)" by (simp add: ee)
    moreover have "(0::real) \<le> 2 powi (- 53) * \<bar>x\<bar>" by simp
    ultimately show ?thesis using b by linarith
  qed
qed

lemma double_of_eqI:
  assumes "2 powi e \<le> \<bar>x\<bar>" "\<bar>x\<bar> < 2 powi (e + 1)" "- 1022 \<le> e"
  shows "double_of x = of_int (round_half_even (x / 2 powi (e - 52))) * 2 powi (e - 52)"
proof -
  have "(0::real) < 2 powi e" by simp
  then have "0 < \<bar>x\<bar>" using assms(1) by linarith
  then have x: "x \<noteq> 0" by simp
  have "\<lfloor>log 2 \<bar>x\<bar>\<rfloor> = e" using assms(1,2) by (rule floor_log_eqI)
  then show ?thesis using x assms(3) by (simp add: double_of_def Let_def max_def)
qed

lemma round_half_even_frac:
  assumes "0 < m"
  shows "round_half_even (of_int n / of_int m) =
     (if 2 * (n mod m) < m then n div m else if m < 2 * (n mod m) then n div m + 1
      else if even (n div m) then n div m else n div m + 1)"
proof -
  have fl: "\<lfloor>(of_int n :: real) / of_int m\<rfloor> = n div m"
    by (simp add: floor_divide_of_int_eq)
  have "(of_int n :: real) = of_int (m * (n div m) + n mod m)" by simp
  also have "\<dots> = of_int m * of_int (n div m) + of_int (n mod m)"
    by (simp only: of_int_add of_int_mult)
  finally have "(of_int n :: real) / of_int m = of_int (n div m) + of_int (n mod m) / of_int m"
    using assms by (simp add: field_simps)
  then have d: "(of_int n :: real) / of_int m - of_int (n div m) = of_int (n mod m) / of_int m"
    by simp
  have "(of_int (n mod m) / (of_int m :: real) < 1/2)
          = ((of_int (2 * (n mod m)) :: real) < of_int m)"
    using assms by (simp add: field_simps)
  then have h1: "(of_int (n mod m) / (of_int m :: real) < 1/2) = (2 * (n mod m) < m)"
    by (simp only: of_int_less_iff)
  have "(1/2 < of_int (n mod m) / (of_int m :: real))
          = ((of_int m :: real) < of_int (2 * (n mod m)))"
    using assms by (simp add: field_simps)
  then have h2: "(1/2 < of_int (n mod m) / (of_int m :: real)) = (m < 2 * (n mod m))"
    by (simp only: of_int_less_iff)
  show ?thesis
    unfolding round_half_even_def Let_def fl d h1 h2 by simp
qed

lemma double_of_rat:
  assumes "2 powi e \<le> \<bar>x\<bar>" "\<bar>x\<bar> < 2 powi (e + 1)" "- 1022 \<le> e"
    and "x / 2 powi (e - 52) = of_int n / of_int m" "0 < m"
  shows "double_of x = of_int (if 2 * (n mod m) < m then n div m
                               else if m < 2 * (n mod m) then n div m + 1
                               else if even (n div m) then n div m else n div m + 1)
                       * 2 powi (e - 52)"
  unfolding double_of_eqI[OF assms(1,2,3)] assms(4) round_half_even_frac[OF assms(5)] ..

lemma powi_m53: "(2::real) powi (- 53) = 1 / 9007199254740992"
  by (simp add: power_int_minus field_simps)

lemma lit_0_7_val: "lit_0_7 = 6305039478318694 / 9007199254740992"
  unfolding lit_0_7_def
  by (subst double_of_rat[where e = "- 1" and n = 63050394783186944 and m = 10])
     (simp_all add: power_int_minus)

lemma lit_0_3_val: "lit_0_3 = 5404319552844595 / 18014398509481984"
  unfolding lit_0_3_def
  by (subst double_of_rat[where e = "- 2" and n = 54043195528445952 and m = 10])
     (simp_all add: power_int_minus)

text \<open>
  One update: the value stored is the exact moving average up to rounding, and its
  distance to the observed runtime shrinks by the factor 0.7 up to rounding.
\<close>

lemma update_rounding:
  "\<bar>double_of (double_of (lit_0_7 * e) + double_of (lit_0_3 * r)) - (7/10 * e + 3/10 * r)\<bar>
     \<le> 2 powi (- 52) * \<bar>e\<bar> + 2 powi (- 53) * \<bar>r\<bar> + 4 * 2 powi (- 1075)"
proof -
  define u :: real where "u = 1 / 9007199254740992"
  define h :: real where "h = 2 powi (- 1075)"
  define p1 where "p1 = double_of (lit_0_7 * e)"
  define p2 where "p2 = double_of (lit_0_3 * r)"
  define e' where "e' = double_of (p1 + p2)"
  have h: "0 < h" unfolding h_def by (rule zero_less_power_int) simp
  have u53: "2 powi (- 53) = u" by (simp add: u_def powi_m53)
  have u52: "2 powi (- 52) = 2 * u" by (simp add: u_def power_int_minus)
  have up: "0 < u" "u \<le> 1/100" by (simp_all add: u_def)
  have a: "lit_0_7 = 7/10 - 4/10 * u" by (simp add: lit_0_7_val u_def)
  have b: "lit_0_3 = 3/10 - 1/10 * u" by (simp add: lit_0_3_val u_def)
  have a0: "0 \<le> lit_0_7" "lit_0_7 \<le> 7/10" by (simp_all add: lit_0_7_val)
  have b0: "0 \<le> lit_0_3" "lit_0_3 \<le> 3/10" by (simp_all add: lit_0_3_val)
  have fe: "\<bar>double_of x - x\<bar> \<le> u * \<bar>x\<bar> + h" for x
    unfolding h_def u53[symmetric] by (rule double_of_error)
  have e1: "\<bar>p1 - lit_0_7 * e\<bar> \<le> u * \<bar>lit_0_7 * e\<bar> + h"
    unfolding p1_def by (rule fe)
  have e2: "\<bar>p2 - lit_0_3 * r\<bar> \<le> u * \<bar>lit_0_3 * r\<bar> + h"
    unfolding p2_def by (rule fe)
  have e3: "\<bar>e' - (p1 + p2)\<bar> \<le> u * \<bar>p1 + p2\<bar> + h"
    unfolding e'_def by (rule fe)
  have m1: "\<bar>lit_0_7 * e\<bar> \<le> 7/10 * \<bar>e\<bar>"
  proof -
    have "\<bar>lit_0_7 * e\<bar> = lit_0_7 * \<bar>e\<bar>" using a0 by (simp add: abs_mult)
    also have "\<dots> \<le> 7/10 * \<bar>e\<bar>" using a0 by (intro mult_right_mono) simp_all
    finally show ?thesis .
  qed
  have m2: "\<bar>lit_0_3 * r\<bar> \<le> 3/10 * \<bar>r\<bar>"
  proof -
    have "\<bar>lit_0_3 * r\<bar> = lit_0_3 * \<bar>r\<bar>" using b0 by (simp add: abs_mult)
    also have "\<dots> \<le> 3/10 * \<bar>r\<bar>" using b0 by (intro mult_right_mono) simp_all
    finally show ?thesis .
  qed
  have ce: "lit_0_7 * e = 7/10 * e - 4/10 * u * e" by (simp add: a algebra_simps)
  have cr: "lit_0_3 * r = 3/10 * r - 1/10 * u * r" by (simp add: b algebra_simps)
  have ue: "\<bar>4/10 * u * e\<bar> = 4/10 * u * \<bar>e\<bar>" by (simp add: abs_mult u_def)
  have ur: "\<bar>1/10 * u * r\<bar> = 1/10 * u * \<bar>r\<bar>" by (simp add: abs_mult u_def)
  have f1: "u * \<bar>lit_0_7 * e\<bar> \<le> u * (7/10 * \<bar>e\<bar>)" using m1 up by (simp add: mult_left_mono)
  have f2: "u * \<bar>lit_0_3 * r\<bar> \<le> u * (3/10 * \<bar>r\<bar>)" using m2 up by (simp add: mult_left_mono)
  have s: "\<bar>p1 + p2\<bar> \<le> 8/10 * \<bar>e\<bar> + 4/10 * \<bar>r\<bar> + 2 * h"
  proof -
    have "u * (7/10 * \<bar>e\<bar>) \<le> 1/100 * (7/10 * \<bar>e\<bar>)"
      using up by (intro mult_right_mono) simp_all
    moreover have "u * (3/10 * \<bar>r\<bar>) \<le> 1/100 * (3/10 * \<bar>r\<bar>)"
      using up by (intro mult_right_mono) simp_all
    ultimately show ?thesis using e1 e2 m1 m2 f1 f2 by linarith
  qed
  have f3: "u * \<bar>p1 + p2\<bar> \<le> u * (8/10 * \<bar>e\<bar> + 4/10 * \<bar>r\<bar> + 2 * h)"
    using s up by (simp add: mult_left_mono)
  have uh: "u * (2 * h) \<le> h" using up h by (simp add: u_def)
  have "e' - (7/10 * e + 3/10 * r)
          = (e' - (p1 + p2)) + (p1 - lit_0_7 * e) + (p2 - lit_0_3 * r)
            - 4/10 * u * e - 1/10 * u * r"
    by (simp add: ce cr)
  then have "\<bar>e' - (7/10 * e + 3/10 * r)\<bar>
          \<le> \<bar>e' - (p1 + p2)\<bar> + \<bar>p1 - lit_0_7 * e\<bar> + \<bar>p2 - lit_0_3 * r\<bar>
            + \<bar>4/10 * u * e\<bar> + \<bar>1/10 * u * r\<bar>"
    by linarith
  also have "\<dots> \<le> (u * (8/10 * \<bar>e\<bar> + 4/10 * \<bar>r\<bar> + 2 * h) + h)
                   + (u * (7/10 * \<bar>e\<bar>) + h) + (u * (3/10 * \<bar>r\<bar>) + h)
                   + 4/10 * u * \<bar>e\<bar> + 1/10 * u * \<bar>r\<bar>"
    using e1 e2 e3 f1 f2 f3 ue ur by linarith
  also have "\<dots> \<le> 2 * u * \<bar>e\<bar> + u * \<bar>r\<bar> + 4 * h"
  proof -
    have x: "u * (8/10 * \<bar>e\<bar> + 4/10 * \<bar>r\<bar> + 2 * h)
               = 8/10 * (u * \<bar>e\<bar>) + 4/10 * (u * \<bar>r\<bar>) + u * (2 * h)"
      "u * (7/10 * \<bar>e\<bar>) = 7/10 * (u * \<bar>e\<bar>)"
      "u * (3/10 * \<bar>r\<bar>) = 3/10 * (u * \<bar>r\<bar>)"
      "4/10 * u * \<bar>e\<bar> = 4/10 * (u * \<bar>e\<bar>)"
      "1/10 * u * \<bar>r\<bar> = 1/10 * (u * \<bar>r\<bar>)"
      "2 * u * \<bar>e\<bar> = 2 * (u * \<bar>e\<bar>)"
      by (simp_all add: algebra_simps)
    have n: "0 \<le> u * \<bar>e\<bar>" "0 \<le> u * \<bar>r\<bar>" using up by simp_all
    show ?thesis unfolding x using uh n by linarith
  qed
  finally have "\<bar>e' - (7/10 * e + 3/10 * r)\<bar> \<le> 2 * u * \<bar>e\<bar> + u * \<bar>r\<bar> + 4 * h" .
  then show ?thesis
    unfolding e'_def p1_def p2_def h_def u52 u53 .
qed

lemma update_step:
  "\<bar>double_of (double_of (lit_0_7 * e) + double_of (lit_0_3 * r)) - r\<bar>
     \<le> (7/10 + 2 powi (- 52)) * \<bar>e - r\<bar> + (3 * 2 powi (- 53) * \<bar>r\<bar> + 4 * 2 powi (- 1075))"
proof -
  define e' where "e' = double_of (double_of (lit_0_7 * e) + double_of (lit_0_3 * r))"
  define u :: real where "u = 2 powi (- 53)"
  define h :: real where "h = 2 powi (- 1075)"
  have u52: "2 powi (- 52) = 2 * u" by (simp add: u_def power_int_minus)
  have up: "0 \<le> u" by (simp add: u_def)
  have t: "\<bar>e' - (7/10 * e + 3/10 * r)\<bar> \<le> 2 * u * \<bar>e\<bar> + u * \<bar>r\<bar> + 4 * h"
    unfolding e'_def u_def h_def u52[unfolded u_def, symmetric] by (rule update_rounding)
  have "e' - r = (e' - (7/10 * e + 3/10 * r)) + 7/10 * (e - r)" by argo
  then have "\<bar>e' - r\<bar> \<le> \<bar>e' - (7/10 * e + 3/10 * r)\<bar> + 7/10 * \<bar>e - r\<bar>"
    by linarith
  moreover have "\<bar>e\<bar> \<le> \<bar>e - r\<bar> + \<bar>r\<bar>" by simp
  then have "2 * u * \<bar>e\<bar> \<le> 2 * u * (\<bar>e - r\<bar> + \<bar>r\<bar>)" using up by (simp add: mult_left_mono)
  moreover have "2 * u * (\<bar>e - r\<bar> + \<bar>r\<bar>) = 2 * u * \<bar>e - r\<bar> + 2 * (u * \<bar>r\<bar>)"
    "(7/10 + 2 * u) * \<bar>e - r\<bar> = 7/10 * \<bar>e - r\<bar> + 2 * u * \<bar>e - r\<bar>"
    "3 * u * \<bar>r\<bar> = 3 * (u * \<bar>r\<bar>)"
    by (simp_all add: algebra_simps)
  ultimately have "\<bar>e' - r\<bar> \<le> (7/10 + 2 * u) * \<bar>e - r\<bar> + (3 * u * \<bar>r\<bar> + 4 * h)"
    using t by linarith
  then show ?thesis unfolding e'_def u52 u_def h_def .
qed

lemma update_iterated:
  "\<bar>((\<lambda>x. double_of (double_of (lit_0_7 * x) + double_of (lit_0_3 * r))) ^^ k) e - r\<bar>
     \<le> (7/10 + 2 powi (- 52)) ^ k * \<bar>e - r\<bar> + 2 powi (- 49) * \<bar>r\<bar> + 2 powi (- 1071)"
proof -
  let ?f = "\<lambda>x. double_of (double_of (lit_0_7 * x) + double_of (lit_0_3 * r))"
  define c where "c = 3 * 2 powi (- 53) * \<bar>r\<bar> + 4 * 2 powi (- 1075)"
  define \<rho> :: real where "\<rho> = 7/10 + 2 powi (- 52)"
  have c: "0 \<le> c" unfolding c_def by (intro add_nonneg_nonneg mult_nonneg_nonneg) simp_all
  have \<rho>: "0 \<le> \<rho>" "\<rho> \<le> 3/4" by (simp_all add: \<rho>_def power_int_minus)
  have step: "\<bar>?f x - r\<bar> \<le> \<rho> * \<bar>x - r\<bar> + c" for x
    unfolding \<rho>_def c_def by (rule update_step)
  have "\<bar>(?f ^^ k) e - r\<bar> \<le> \<rho> ^ k * \<bar>e - r\<bar> + 4 * c"
  proof (induction k)
    case 0
    then show ?case using c by simp
  next
    case (Suc k)
    let ?x = "(?f ^^ k) e"
    have "\<bar>?f ?x - r\<bar> \<le> \<rho> * \<bar>?x - r\<bar> + c" by (rule step)
    also have "\<dots> \<le> \<rho> * (\<rho> ^ k * \<bar>e - r\<bar> + 4 * c) + c"
      using Suc.IH \<rho>(1) by (simp add: mult_left_mono)
    also have "\<dots> = \<rho> ^ Suc k * \<bar>e - r\<bar> + (4 * (\<rho> * c) + c)" by (simp add: algebra_simps)
    also have "\<dots> \<le> \<rho> ^ Suc k * \<bar>e - r\<bar> + 4 * c"
    proof -
      have "\<rho> * c \<le> 3/4 * c" using \<rho>(2) c by (intro mult_right_mono) simp_all
      then show ?thesis by simp
    qed
    finally show ?case by simp
  qed
  moreover have "4 * c \<le> 2 powi (- 49) * \<bar>r\<bar> + 2 powi (- 1071)"
  proof -
    have a: "(2::real) powi (- 1071) = 16 * 2 powi (- 1075)"
      by (simp add: power_int_minus_mult[symmetric] power_int_diff[symmetric] field_simps
            flip: power_int_add)
    have b: "(2::real) powi (- 49) = 16 * 2 powi (- 53)"
      by (simp add: power_int_minus)
    have "12 * 2 powi (- 53) * \<bar>r\<bar> \<le> 16 * 2 powi (- 53) * \<bar>r\<bar>"
      by (intro mult_right_mono) simp_all
    then show ?thesis unfolding c_def a b by (simp add: algebra_simps)
  qed
  ultimately show ?thesis unfolding \<rho>_def by linarith
qed

text \<open>The same in the store.\<close>

lemma update_ert_present:
  "ert d (ert_key ag ac) = Some e \<Longrightarrow>
   update_ert (Some d) ag ac r
     = (True, Some (d\<lparr>ert := (ert d)(ert_key ag ac \<mapsto>
                double_of (double_of (lit_0_7 * e) + double_of (lit_0_3 * r)))\<rparr>))"
  by (simp add: update_ert_def get_ert_def)

lemma observe_present:
  "ert d (ert_key ag ac) = Some e \<Longrightarrow>
   \<exists>d'. observe k (Some d) ag ac r = Some d'
        \<and> ert d' (ert_key ag ac)
            = Some (((\<lambda>x. double_of (double_of (lit_0_7 * x) + double_of (lit_0_3 * r))) ^^ k) e)"
proof (induction k arbitrary: d e)
  case 0
  then show ?case by simp
next
  case (Suc k d e)
  let ?f = "\<lambda>x. double_of (double_of (lit_0_7 * x) + double_of (lit_0_3 * r))"
  let ?d1 = "d\<lparr>ert := (ert d)(ert_key ag ac \<mapsto> ?f e)\<rparr>"
  have step: "observe (Suc k) (Some d) ag ac r = observe k (Some ?d1) ag ac r"
    using Suc.prems by (simp add: update_ert_present)
  have "ert ?d1 (ert_key ag ac) = Some (?f e)" by simp
  from Suc.IH[OF this] obtain d' where
    d': "observe k (Some ?d1) ag ac r = Some d'"
        "ert d' (ert_key ag ac) = Some ((?f ^^ k) (?f e))"
    by blast
  have "(?f ^^ k) (?f e) = (?f ^^ Suc k) e" by (simp only: funpow_Suc_right o_apply)
  with d' step show ?case by simp
qed

text \<open>
  The first observation for \<open>(X, run)\<close>, of the runtime 10, seeds the estimate with 10;
  then the runtime 20 is observed.
\<close>

lemma double_of_3: "double_of (lit_0_3 * 10) = 3"
  unfolding lit_0_3_val
  by (subst double_of_rat[where e = 1 and n = 54043195528445950 and m = 8])
     (simp_all add: power_int_minus)

lemma double_of_10: "double_of (7 + 3) = 10"
  by (subst double_of_rat[where e = 3 and n = 5629499534213120 and m = 1])
     (simp_all add: power_int_minus)

lemma double_of_7: "double_of (lit_0_7 * 10) = 7"
  unfolding lit_0_7_val
  by (subst double_of_rat[where e = 2 and n = 63050394783186940 and m = 8])
     (simp_all add: power_int_minus)

lemma double_of_6: "double_of (lit_0_3 * 20) = 6"
  unfolding lit_0_3_val
  by (subst double_of_rat[where e = 2 and n = 108086391056891900 and m = 16])
     (simp_all add: power_int_minus)

lemma double_of_13: "double_of (7 + 6) = 13"
  by (subst double_of_rat[where e = 3 and n = 7318349394477056 and m = 1])
     (simp_all add: power_int_minus)

lemma double_of_9_1: "double_of (lit_0_7 * 13) = 5122844576133939 / 562949953421312"
  unfolding lit_0_7_val
  by (subst double_of_rat[where e = 3 and n = 81965513218143022 and m = 16])
     (simp_all add: power_int_minus)

lemma double_of_15_1:
  "double_of (5122844576133939 / 562949953421312 + 6) = 8500544296661811 / 562949953421312"
  by (subst double_of_rat[where e = 3 and n = 8500544296661811 and m = 1])
     (simp_all add: power_int_minus)

lemma update_10_20:
  "double_of (double_of (lit_0_7 * 10) + double_of (lit_0_3 * 20)) = 13"
  "double_of (double_of (lit_0_7 * 13) + double_of (lit_0_3 * 20))
     = 8500544296661811 / 562949953421312"
  unfolding double_of_7 double_of_6 double_of_13 double_of_9_1 double_of_15_1 by (rule refl)+

lemma seed_10:
  "update_ert (Some redis_empty) ''X'' ''run'' 10
     = (True, Some (redis_empty\<lparr>ert := [''X:run'' \<mapsto> 10]\<rparr>))"
proof -
  have "double_of (double_of (lit_0_7 * 10) + double_of (lit_0_3 * 10)) = 10"
    unfolding double_of_7 double_of_3 double_of_10 by (rule refl)
  then show ?thesis
    by (simp add: update_ert_def get_ert_def ert_key_def redis_empty_def)
qed

lemma observe_10_20:
  "observe 2 (Some (redis_empty\<lparr>ert := [''X:run'' \<mapsto> 10]\<rparr>)) ''X'' ''run'' 20
     = Some (redis_empty\<lparr>ert := [''X:run'' \<mapsto> 8500544296661811 / 562949953421312]\<rparr>)"
proof -
  have k: "ert_key ''X'' ''run'' = ''X:run''" by (simp add: ert_key_def)
  have 1: "update_ert (Some (redis_empty\<lparr>ert := [''X:run'' \<mapsto> 10]\<rparr>)) ''X'' ''run'' 20
             = (True, Some (redis_empty\<lparr>ert := [''X:run'' \<mapsto> 13]\<rparr>))"
    by (subst update_ert_present[where e = 10]) (simp_all add: k update_10_20)
  have 2: "update_ert (Some (redis_empty\<lparr>ert := [''X:run'' \<mapsto> 13]\<rparr>)) ''X'' ''run'' 20
             = (True, Some (redis_empty\<lparr>ert :=
                              [''X:run'' \<mapsto> 8500544296661811 / 562949953421312]\<rparr>))"
    by (subst update_ert_present[where e = 13]) (simp_all add: k update_10_20)
  show ?thesis by (simp add: numeral_2_eq_2 1 2)
qed

text \<open>
  Claim C8, as stated, fails.  The first observation for \<open>(X, run)\<close>, of the runtime
  10, leaves the stored estimate 10; then the runtime 20 is observed twice.  The first
  of these updates stores 13; the second stores the double next below 15.1, which is
  \<open>8500544296661811 / 2^49\<close>; its distance to 20 exceeds \<open>0.7^2 * |20 - 10| = 4.9\<close>.
\<close>

theorem ert_bound_counterexample:
  "map_option (\<lambda>d. ert d (ert_key ''X'' ''run''))
     (snd (update_ert (Some redis_empty) ''X'' ''run'' 10)) = Some (Some 10)
   \<and> map_option (\<lambda>d. ert d (ert_key ''X'' ''run''))
     (observe 2 (snd (update_ert (Some redis_empty) ''X'' ''run'' 10)) ''X'' ''run'' 20)
     = Some (Some (8500544296661811 / 562949953421312))
   \<and> (7/10) ^ 2 * \<bar>20 - 10 :: real\<bar> < \<bar>8500544296661811 / 562949953421312 - 20\<bar>"
  by (simp add: observe_10_20 seed_10 ert_key_def power2_eq_square)

text \<open>
  Claim C8, amended.  A task execution that succeeds (the agent answers 200 with a body
  that \<open>response.json()\<close> accepts) calls \<open>update_ert\<close> with the measured runtime.  On a
  stored estimate \<open>e\<close> that call stores the double-precision value of
  \<open>0.7 * e + 0.3 * r\<close>, which is within \<open>2^-52 * |e| + 2^-53 * |r| + 2^-1073\<close> of the exact
  moving average.  After \<open>k \<ge> 1\<close> consecutive observations of the same runtime \<open>r\<close> the
  stored estimate is within \<open>(0.7 + 2^-52)^k * |r - e| + 2^-49 * |r| + 2^-1071\<close> of \<open>r\<close>.
\<close>

theorem ert_ema_rounded:
  "(worker_id < length (wp_worker_stats wp) \<and> wp_session wp \<longrightarrow>
      (\<exists>tm' wp'. execute_task wp worker_id tm (Response 200 body) s t1 t2 t3 = Some (tm', wp')
          \<and> sched_redis (wp_scheduler wp')
              = snd (update_ert (sched_redis (wp_scheduler wp)) (wp_agent wp)
                       (get_action tm) (t1 - s))))
   \<and> (ert d (ert_key ag ac) = Some e \<longrightarrow>
        (\<exists>e1. update_ert (Some d) ag ac r
                 = (True, Some (d\<lparr>ert := (ert d)(ert_key ag ac \<mapsto> e1)\<rparr>))
            \<and> e1 = double_of (double_of (lit_0_7 * e) + double_of (lit_0_3 * r))
            \<and> \<bar>e1 - (7/10 * e + 3/10 * r)\<bar>
                 \<le> 2 powi (- 52) * \<bar>e\<bar> + 2 powi (- 53) * \<bar>r\<bar> + 2 powi (- 1073))
        \<and> (1 \<le> k \<longrightarrow>
             (\<exists>d' e'. observe k (Some d) ag ac r = Some d'
                 \<and> ert d' (ert_key ag ac) = Some e'
                 \<and> \<bar>e' - r\<bar> \<le> (7/10 + 2 powi (- 52)) ^ k * \<bar>r - e\<bar>
                                + 2 powi (- 49) * \<bar>r\<bar> + 2 powi (- 1071))))"
proof -
  have worker: "worker_id < length (wp_worker_stats wp) \<and> wp_session wp \<longrightarrow>
      (\<exists>tm' wp'. execute_task wp worker_id tm (Response 200 body) s t1 t2 t3 = Some (tm', wp')
          \<and> sched_redis (wp_scheduler wp')
              = snd (update_ert (sched_redis (wp_scheduler wp)) (wp_agent wp)
                       (get_action tm) (t1 - s)))"
    using execute_task_success[of worker_id wp tm body s t1 t2 t3] by blast
  have q: "(4::real) * 2 powi (- 1075) = 2 powi (- 1073)"
    by (simp add: power_int_minus_mult[symmetric] power_int_diff[symmetric] field_simps
          flip: power_int_add)
  have one: "\<bar>double_of (double_of (lit_0_7 * e) + double_of (lit_0_3 * r))
               - (7/10 * e + 3/10 * r)\<bar>
                 \<le> 2 powi (- 52) * \<bar>e\<bar> + 2 powi (- 53) * \<bar>r\<bar> + 2 powi (- 1073)"
    using update_rounding[of e r] unfolding q .
  have bound: "\<exists>d' e'. observe k (Some d) ag ac r = Some d'
                 \<and> ert d' (ert_key ag ac) = Some e'
                 \<and> \<bar>e' - r\<bar> \<le> (7/10 + 2 powi (- 52)) ^ k * \<bar>r - e\<bar>
                                + 2 powi (- 49) * \<bar>r\<bar> + 2 powi (- 1071)"
    if h: "ert d (ert_key ag ac) = Some e"
  proof -
    let ?f = "\<lambda>x. double_of (double_of (lit_0_7 * x) + double_of (lit_0_3 * r))"
    from observe_present[OF h, of k r] obtain d' where
      d': "observe k (Some d) ag ac r = Some d'"
          "ert d' (ert_key ag ac) = Some ((?f ^^ k) e)"
      by blast
    have "\<bar>(?f ^^ k) e - r\<bar> \<le> (7/10 + 2 powi (- 52)) ^ k * \<bar>r - e\<bar>
                                + 2 powi (- 49) * \<bar>r\<bar> + 2 powi (- 1071)"
      using update_iterated[where r = r and k = k and e = e]
      by (simp only: abs_minus_commute[of r e])
    with d' show ?thesis by blast
  qed
  show ?thesis
    using worker bound one update_ert_present[of d ag ac e r] by blast
qed

theorem ert_ema_rounded_witness:
  "0 < length (wp_worker_stats pool_X) \<and> wp_session pool_X
   \<and> (\<exists>tm' wp'. execute_task pool_X 0 tm_A (Response 200 ''ok'') 100 110 111 112 = Some (tm', wp')
         \<and> sched_redis (wp_scheduler wp')
             = Some (redis_empty\<lparr>ert := [''X:run'' \<mapsto> 10]\<rparr>))
   \<and> ert (redis_empty\<lparr>ert := [''X:run'' \<mapsto> 10]\<rparr>) (ert_key ''X'' ''run'') = Some 10
   \<and> (\<exists>d' e'. observe 2 (Some (redis_empty\<lparr>ert := [''X:run'' \<mapsto> 10]\<rparr>)) ''X'' ''run'' 20 = Some d'
         \<and> ert d' (ert_key ''X'' ''run'') = Some e'
         \<and> \<bar>e' - 20\<bar> \<le> (7/10 + 2 powi (- 52)) ^ 2 * \<bar>20 - 10\<bar>
                          + 2 powi (- 49) * \<bar>20\<bar> + 2 powi (- 1071))"
proof -
  let ?d = "redis_empty\<lparr>ert := [''X:run'' \<mapsto> 10]\<rparr>"
  have a: "0 < length (wp_worker_stats pool_X) \<and> wp_session pool_X"
    by (simp add: pool_X_def)
  have b: "ert ?d (ert_key ''X'' ''run'') = Some 10"
    by (simp add: ert_key_def)
  have c: "snd (update_ert (sched_redis (wp_scheduler pool_X)) (wp_agent pool_X)
                  (get_action tm_A) (110 - 100)) = Some ?d"
    using seed_10
    by (simp add: pool_X_def sched_empty_def Scheduler_init_def get_action_def tm_A_def
          tm_empty_def)
  have k: "(1::nat) \<le> 2" by simp
  show ?thesis
    using ert_ema_rounded[of 0 pool_X tm_A "''ok''" 100 110 111 112 ?d "''X''" "''run''" 10 20 2]
          a b c k
    by auto
qed

subsection \<open>Failed agent calls\<close>

lemma execute_task_failure:
  assumes "worker_id < length (wp_worker_stats wp)"
    and "call_agent wp tm resp = Inl msg"
  shows "\<exists>tm' wp'. execute_task wp worker_id tm resp s t1 t2 t3 = Some (tm', wp')
           \<and> tm' = fst (snd (schedule (wp_retry_tracker wp) t3
                       (tm\<lparr>started_at := Some s, failed_at := Some t2,
                           runtime_s := Some (t1 - s), error := Some msg\<rparr>) (Some msg)))
           \<and> wp_retry_tracker wp' = snd (snd (schedule (wp_retry_tracker wp) t3
                       (tm\<lparr>started_at := Some s, failed_at := Some t2,
                           runtime_s := Some (t1 - s), error := Some msg\<rparr>) (Some msg)))
           \<and> ev_type (last (wp_events wp')) = ''TASK_FAILED''"
proof -
  have c: "call_agent (emit_event wp ''TASK_STARTED'' (tm\<lparr>started_at := Some s\<rparr>) None None None)
             (tm\<lparr>started_at := Some s\<rparr>) resp = Inl msg"
    using assms(2) by (simp add: call_agent_def emit_event_def)
  show ?thesis
    using assms(1) c
    by (auto simp add: execute_task_def is_workflow_cancelled_def Let_def emit_event_def
          split: prod.splits)
qed

lemma call_agent_non_200:
  "wp_session wp \<Longrightarrow> status \<noteq> 200 \<Longrightarrow>
   call_agent wp tm (Response status body)
     = Inl (''Agent returned '' @ str_nat status @ '': '' @ body)"
  by (simp add: call_agent_def)

lemma get_fields_after_failure [simp]:
  "get_retries (tm\<lparr>started_at := a, failed_at := b, runtime_s := c, error := d\<rparr>) = get_retries tm"
  "get_task_id (tm\<lparr>started_at := a, failed_at := b, runtime_s := c, error := d\<rparr>) = get_task_id tm"
  by (simp_all add: get_retries_def get_task_id_def)

text \<open>
  Claim C7, as stated, fails: the agent answers 400 on the first attempt of task \<open>A\<close>,
  and the worker schedules a retry: afterwards the delay queue holds \<open>A\<close>, due at
  \<open>103 + 15\<close>, and the retry count of the task metadata is 1.
\<close>

theorem execute_task_400_counterexample:
  "map_option (retries \<circ> fst)
     (execute_task pool_X 0 tm_A (Response 400 ''bad request'') 100 101 102 103) = Some (Some 1)
   \<and> map_option (map_option retry_q \<circ> rt_redis \<circ> wp_retry_tracker \<circ> snd)
     (execute_task pool_X 0 tm_A (Response 400 ''bad request'') 100 101 102 103)
       = Some (Some [(''A'', 118)])"
proof -
  have ca: "call_agent pool_X tm_A (Response 400 ''bad request'')
              = Inl (''Agent returned '' @ str_nat 400 @ '': '' @ ''bad request'')"
    by (simp add: call_agent_non_200 pool_X_def)
  have r: "get_retries tm_A < max_retries (wp_retry_tracker pool_X)"
    by (simp add: pool_X_def rt_up_def RetryTracker_init_def default_retry_config_def
          get_retries_def tm_A_def tm_empty_def)
  have st: "rt_redis (wp_retry_tracker pool_X) = Some redis_empty"
    by (simp add: pool_X_def rt_up_def RetryTracker_init_def)
  have dl: "backoff_delay (wp_retry_tracker pool_X) (get_retries tm_A) = 15"
    by (simp add: backoff_delay_def pool_X_def rt_up_def RetryTracker_init_def
          default_retry_config_def get_retries_def tm_A_def tm_empty_def pow2_def)
  have more: "get_task_id tm_A = ''A''" "get_retries tm_A = 0" "0 < length (wp_worker_stats pool_X)"
    by (simp_all add: get_task_id_def get_retries_def tm_A_def tm_empty_def pool_X_def)
  from execute_task_failure[OF more(3) ca, of 100 101 102 103]
  show ?thesis
    using r st dl more
    by (auto simp add: schedule_store_up redis_empty_def)
qed

text \<open>
  Claim C7, amended.  A failed agent call of any kind, a 4xx response like any other
  response that is not 200, is handed to \<open>schedule\<close> by the worker: the task metadata
  and the retry tracker after \<open>_execute_task\<close> are those that \<open>schedule\<close> returns.  So
  the failure produces a delay-queue entry for the task whenever its retry count is
  below \<open>max_retries\<close> and the store is reachable, and none once the retry count has
  reached \<open>max_retries\<close>: only the retry count ends the retries, not the failure kind.
\<close>

theorem failed_call_reaches_schedule:
  "worker_id < length (wp_worker_stats wp) \<and> wp_session wp \<and> status \<noteq> 200 \<longrightarrow>
     (\<exists>tm' wp' msg tm2.
        msg = ''Agent returned '' @ str_nat status @ '': '' @ body
        \<and> tm2 = tm\<lparr>started_at := Some s, failed_at := Some t2,
                    runtime_s := Some (t1 - s), error := Some msg\<rparr>
        \<and> execute_task wp worker_id tm (Response status body) s t1 t2 t3 = Some (tm', wp')
        \<and> tm' = fst (snd (schedule (wp_retry_tracker wp) t3 tm2 (Some msg)))
        \<and> wp_retry_tracker wp' = snd (snd (schedule (wp_retry_tracker wp) t3 tm2 (Some msg)))
        \<and> (\<forall>d. rt_redis (wp_retry_tracker wp) = Some d
                 \<and> get_retries tm < max_retries (wp_retry_tracker wp) \<longrightarrow>
               (\<exists>d'. rt_redis (wp_retry_tracker wp') = Some d'
                    \<and> map_of (retry_q d') (get_task_id tm)
                         = Some (t3 + backoff_delay (wp_retry_tracker wp) (get_retries tm))))
        \<and> (max_retries (wp_retry_tracker wp) \<le> get_retries tm \<longrightarrow>
               rt_redis (wp_retry_tracker wp') = rt_redis (wp_retry_tracker wp)))"
proof (intro impI)
  assume h: "worker_id < length (wp_worker_stats wp) \<and> wp_session wp \<and> status \<noteq> 200"
  let ?msg = "''Agent returned '' @ str_nat status @ '': '' @ body"
  let ?tm2 = "tm\<lparr>started_at := Some s, failed_at := Some t2,
                  runtime_s := Some (t1 - s), error := Some ?msg\<rparr>"
  have ca: "call_agent wp tm (Response status body) = Inl ?msg"
    using h by (simp add: call_agent_non_200)
  from h have w: "worker_id < length (wp_worker_stats wp)" by simp
  from execute_task_failure[OF w ca, of s t1 t2 t3] obtain tm' wp' where
    ex: "execute_task wp worker_id tm (Response status body) s t1 t2 t3 = Some (tm', wp')"
        "tm' = fst (snd (schedule (wp_retry_tracker wp) t3 ?tm2 (Some ?msg)))"
        "wp_retry_tracker wp' = snd (snd (schedule (wp_retry_tracker wp) t3 ?tm2 (Some ?msg)))"
    by blast
  have up: "\<exists>d'. rt_redis (wp_retry_tracker wp') = Some d'
                \<and> map_of (retry_q d') (get_task_id tm)
                     = Some (t3 + backoff_delay (wp_retry_tracker wp) (get_retries tm))"
    if "rt_redis (wp_retry_tracker wp) = Some d"
       "get_retries tm < max_retries (wp_retry_tracker wp)" for d
  proof -
    have "get_retries ?tm2 < max_retries (wp_retry_tracker wp)" using that(2) by simp
    from schedule_store_up[OF this that(1), of t3 "Some ?msg"] show ?thesis
      using ex(3) by (simp add: update_conv')
  qed
  have ab: "rt_redis (wp_retry_tracker wp') = rt_redis (wp_retry_tracker wp)"
    if "max_retries (wp_retry_tracker wp) \<le> get_retries tm"
  proof -
    have "max_retries (wp_retry_tracker wp) \<le> get_retries ?tm2" using that by simp
    from schedule_abandon[OF this, of t3 "Some ?msg"] show ?thesis
      using ex(3) by simp
  qed
  show "\<exists>tm' wp' msg tm2.
        msg = ''Agent returned '' @ str_nat status @ '': '' @ body
        \<and> tm2 = tm\<lparr>started_at := Some s, failed_at := Some t2,
                    runtime_s := Some (t1 - s), error := Some msg\<rparr>
        \<and> execute_task wp worker_id tm (Response status body) s t1 t2 t3 = Some (tm', wp')
        \<and> tm' = fst (snd (schedule (wp_retry_tracker wp) t3 tm2 (Some msg)))
        \<and> wp_retry_tracker wp' = snd (snd (schedule (wp_retry_tracker wp) t3 tm2 (Some msg)))
        \<and> (\<forall>d. rt_redis (wp_retry_tracker wp) = Some d
                 \<and> get_retries tm < max_retries (wp_retry_tracker wp) \<longrightarrow>
               (\<exists>d'. rt_redis (wp_retry_tracker wp') = Some d'
                    \<and> map_of (retry_q d') (get_task_id tm)
                         = Some (t3 + backoff_delay (wp_retry_tracker wp) (get_retries tm))))
        \<and> (max_retries (wp_retry_tracker wp) \<le> get_retries tm \<longrightarrow>
               rt_redis (wp_retry_tracker wp') = rt_redis (wp_retry_tracker wp))"
    using ex up ab by blast
qed

theorem failed_call_reaches_schedule_witness:
  "0 < length (wp_worker_stats pool_X) \<and> wp_session pool_X \<and> (404::nat) \<noteq> 200
   \<and> rt_redis (wp_retry_tracker pool_X) = Some redis_empty
   \<and> get_retries tm_A < max_retries (wp_retry_tracker pool_X)
   \<and> (\<exists>tm' wp' d'.
         execute_task pool_X 0 tm_A (Response 404 ''no such action'') 100 101 102 103
           = Some (tm', wp')
         \<and> rt_redis (wp_retry_tracker wp') = Some d'
         \<and> map_of (retry_q d') (get_task_id tm_A) = Some 118)"
proof -
  have a: "0 < length (wp_worker_stats pool_X) \<and> wp_session pool_X \<and> (404::nat) \<noteq> 200"
    by (simp add: pool_X_def)
  have r: "get_retries tm_A < max_retries (wp_retry_tracker pool_X)"
    by (simp add: pool_X_def rt_up_def RetryTracker_init_def default_retry_config_def
          get_retries_def tm_A_def tm_empty_def)
  have st: "rt_redis (wp_retry_tracker pool_X) = Some redis_empty"
    by (simp add: pool_X_def rt_up_def RetryTracker_init_def)
  have dl: "backoff_delay (wp_retry_tracker pool_X) (get_retries tm_A) = 15"
    by (simp add: backoff_delay_def pool_X_def rt_up_def RetryTracker_init_def
          default_retry_config_def get_retries_def tm_A_def tm_empty_def pow2_def)
  show ?thesis
    using failed_call_reaches_schedule[where worker_id = 0 and wp = pool_X and status = 404
            and body = "''no such action''" and tm = tm_A and s = 100 and ?t1.0 = 101
            and ?t2.0 = 102 and ?t3.0 = 103]
          a r st dl
    by auto
qed

subsection \<open>The heap of the scheduler\<close>

lemma lt_key: "lt a b \<longleftrightarrow> key a < key b"
  by (auto simp add: lt_def key_def less_prod_def)

lemma not_lt_key: "\<not> lt a b \<longleftrightarrow> key b \<le> key a"
  by (simp add: lt_key not_less)

lemma parent_less: "0 < i \<Longrightarrow> parent i < i"
  by (simp add: parent_def)

lemma parent_children: "0 < i \<Longrightarrow> parent i = p \<longleftrightarrow> i = 2 * p + 1 \<or> i = 2 * p + 2"
  by (auto simp add: parent_def)

lemma anc_refl [simp]: "anc s s"
  by (simp add: anc.simps)

lemma anc_ge: "anc s i \<Longrightarrow> s \<le> i"
proof (induction s i rule: anc.induct)
  case (1 s i)
  then show ?case by (cases "i \<le> s") (simp_all add: anc.simps[of s i])
qed

lemma anc_parent: "anc s i \<Longrightarrow> s < i \<Longrightarrow> anc s (parent i)"
  by (simp add: anc.simps[of s i])

lemma anc_parent_ge: "anc s i \<Longrightarrow> s < i \<Longrightarrow> s \<le> parent i"
  using anc_parent anc_ge by blast

lemma anc_child: "anc s p \<Longrightarrow> 0 < c \<Longrightarrow> parent c = p \<Longrightarrow> anc s c"
proof -
  assume a: "anc s p" and c: "0 < c" and pc: "parent c = p"
  have "p < c" using parent_less[OF c] pc by simp
  moreover have "s \<le> p" using anc_ge[OF a] .
  ultimately have "\<not> c \<le> s" by simp
  then show ?thesis using a pc by (simp add: anc.simps[of s c])
qed

lemma hole_ok_upd [simp]: "p < length h \<Longrightarrow> hole_ok s (h[p := x]) p = hole_ok s h p"
proof -
  assume pl: "p < length h"
  have pp: "s < p \<Longrightarrow> parent p \<noteq> p" using parent_less[of p] by auto
  show ?thesis
    unfolding hole_ok_def using pl pp
    by (auto simp add: nth_list_update)
qed

lemma mset_move:
  assumes "p < length h" "c < length h" "p \<noteq> c"
  shows "mset (h[p := h ! c, c := x]) = mset (h[p := x])"
proof -
  let ?g = "h[p := x]"
  have "mset (?g[p := ?g ! c, c := ?g ! p]) = mset ?g"
    by (rule mset_swap) (use assms in simp_all)
  moreover have "?g[p := ?g ! c, c := ?g ! p] = h[p := h ! c, c := x]"
    using assms by simp
  ultimately show ?thesis by simp
qed

lemma siftup_loop_inv:
  "hole_ok s h p \<Longrightarrow> anc s p \<Longrightarrow> p < length h \<Longrightarrow> e = length h \<Longrightarrow>
   (case siftup_loop h e p of (h', p') \<Rightarrow>
      hole_ok s h' p' \<and> anc s p' \<and> p' < length h \<and> length h \<le> 2 * p' + 1
      \<and> length h' = length h
      \<and> (\<forall>x. mset (h'[p' := x]) = mset (h[p := x])))"
proof (induction h e p rule: siftup_loop.induct)
  case (1 h endpos pos)
  note prems = "1.prems"
  show ?case
  proof (cases "2 * pos + 1 < endpos")
    case False
    have "siftup_loop h endpos pos = (h, pos)"
      using False by (subst siftup_loop.simps) (simp add: Let_def)
    then show ?thesis using prems False by simp
  next
    case True
    define x where "x = 2 * pos + 1"
    define xa where "xa = x + 1"
    define c where "c = (if xa < endpos \<and> \<not> lt (h ! x) (h ! xa) then xa else x)"
    have xe: "x < endpos" using True by (simp add: x_def)
    have step: "siftup_loop h endpos pos = siftup_loop (h[pos := h ! c]) endpos c"
      using True by (subst siftup_loop.simps) (simp add: Let_def c_def x_def xa_def)
    have cl: "c < length h" using xe prems(4) by (auto simp add: c_def)
    have c0: "0 < c" by (simp add: c_def x_def xa_def)
    have pc: "parent c = pos"
      using parent_children[OF c0, of pos] by (auto simp add: c_def x_def xa_def)
    have cgt: "pos < c" using parent_less[OF c0] pc by simp
    have cmin: "key (h ! c) \<le> key (h ! i)" if "i < length h" "0 < i" "parent i = pos" for i
    proof -
      from that(2,3) have "i = x \<or> i = xa"
        using parent_children[of i pos] by (simp add: x_def xa_def)
      then show ?thesis
        using that(1) prems(4) by (auto simp add: c_def not_lt_key lt_key)
    qed
    have E: "key (h ! parent i) \<le> key (h ! i)"
      if "i < length h" "0 < i" "s \<le> parent i" "i \<noteq> pos" "parent i \<noteq> pos" for i
      using prems(1) that unfolding hole_ok_def by blast
    have G: "key (h ! parent pos) \<le> key (h ! i)"
      if "i < length h" "0 < i" "parent i = pos" "s < pos" for i
      using prems(1) that unfolding hole_ok_def by blast
    have hole': "hole_ok s (h[pos := h ! c]) c"
      unfolding hole_ok_def
    proof (intro conjI allI impI)
      fix i
      assume i: "i < length (h[pos := h ! c])"
        and a: "0 < i \<and> s \<le> parent i \<and> i \<noteq> c \<and> parent i \<noteq> c"
      show "key (h[pos := h ! c] ! parent i) \<le> key (h[pos := h ! c] ! i)"
      proof (cases "i = pos")
        case True
        have sp: "s < pos" using a True parent_less[of pos] by auto
        have "key (h ! parent pos) \<le> key (h ! c)" using G[OF cl c0 pc sp] .
        moreover have "parent pos \<noteq> pos" using a True parent_less[of pos] by auto
        ultimately show ?thesis using True i by simp
      next
        case False
        show ?thesis
        proof (cases "parent i = pos")
          case True
          have "key (h ! c) \<le> key (h ! i)" using cmin[of i] i a True by simp
          then show ?thesis using True False i prems(3) by simp
        next
          case F2: False
          have "key (h ! parent i) \<le> key (h ! i)" using E[of i] i a False F2 by simp
          then show ?thesis using False F2 by simp
        qed
      qed
    next
      fix i
      assume i: "i < length (h[pos := h ! c])" and a: "0 < i \<and> parent i = c \<and> s < c"
      have ic: "c < i" using parent_less[of i] a by auto
      have sp: "s \<le> pos" using anc_ge[OF prems(2)] .
      have "key (h ! parent i) \<le> key (h ! i)"
        using E[of i] i a ic cgt sp by simp
      then show "key (h[pos := h ! c] ! parent c) \<le> key (h[pos := h ! c] ! i)"
        using a pc ic cgt prems(3) by simp
    qed
    have anc': "anc s c" using anc_child[OF prems(2) c0 pc] .
    have IH: "case siftup_loop (h[pos := h ! c]) endpos c of (h', p') \<Rightarrow>
        hole_ok s h' p' \<and> anc s p' \<and> p' < length (h[pos := h ! c])
        \<and> length (h[pos := h ! c]) \<le> 2 * p' + 1
        \<and> length h' = length (h[pos := h ! c])
        \<and> (\<forall>x. mset (h'[p' := x]) = mset (h[pos := h ! c, c := x]))"
      using "1.IH"[OF x_def xe xa_def c_def hole' anc'] cl prems(4) by simp
    have mv: "mset (h[pos := h ! c, c := y]) = mset (h[pos := y])" for y
      using mset_move[OF prems(3) cl] cgt by simp
    show ?thesis
      using IH unfolding step by (auto simp add: mv)
  qed
qed

lemma siftdown_loop_inv:
  "hole_ok s h p \<Longrightarrow> anc s p \<Longrightarrow> p < length h \<Longrightarrow>
   (\<forall>i<length h. 0 < i \<and> parent i = p \<longrightarrow> key n \<le> key (h ! i)) \<Longrightarrow>
   heap_from s (siftdown_loop h s n p) \<and> mset (siftdown_loop h s n p) = mset (h[p := n])"
proof (induction h s n p rule: siftdown_loop.induct)
  case (1 h startpos newitem pos)
  note prems = "1.prems"
  have E: "key (h ! parent i) \<le> key (h ! i)"
    if "i < length h" "0 < i" "startpos \<le> parent i" "i \<noteq> pos" "parent i \<noteq> pos" for i
    using prems(1) that unfolding hole_ok_def by blast
  have G: "key (h ! parent pos) \<le> key (h ! i)"
    if "i < length h" "0 < i" "parent i = pos" "startpos < pos" for i
    using prems(1) that unfolding hole_ok_def by blast
  have C: "key newitem \<le> key (h ! i)" if "i < length h" "0 < i" "parent i = pos" for i
    using prems(4) that by blast
  have place: "heap_from startpos (h[pos := newitem])"
    if top: "startpos < pos \<Longrightarrow> key (h ! parent pos) \<le> key newitem"
    unfolding heap_from_def
  proof (intro allI impI)
    fix i
    assume i: "i < length (h[pos := newitem])" and a: "0 < i \<and> startpos \<le> parent i"
    show "key (h[pos := newitem] ! parent i) \<le> key (h[pos := newitem] ! i)"
    proof (cases "i = pos")
      case True
      have sp: "startpos < pos" using a True parent_less[of pos] by auto
      have "parent pos \<noteq> pos" using a True parent_less[of pos] by auto
      then show ?thesis using top[OF sp] True i by simp
    next
      case False
      show ?thesis
      proof (cases "parent i = pos")
        case True
        then show ?thesis using C[of i] i a False prems(3) by simp
      next
        case F2: False
        then show ?thesis using E[of i] i a False by simp
      qed
    qed
  qed
  show ?case
  proof (cases "pos > startpos")
    case False
    have r: "siftdown_loop h startpos newitem pos = h[pos := newitem]"
      using False by (subst siftdown_loop.simps) simp
    show ?thesis unfolding r using place False by simp
  next
    case True
    define pp where "pp = (pos - 1) div 2"
    have ppp: "pp = parent pos" by (simp add: pp_def parent_def)
    have pos0: "0 < pos" using True by simp
    have ppl: "pp < pos" using parent_less[OF pos0] ppp by simp
    have pps: "startpos \<le> pp" using anc_parent_ge[OF prems(2) True] ppp by simp
    show ?thesis
    proof (cases "lt newitem (h ! pp)")
      case False
      have r: "siftdown_loop h startpos newitem pos = h[pos := newitem]"
        using True False by (subst siftdown_loop.simps) (simp add: Let_def pp_def)
      have "key (h ! parent pos) \<le> key newitem" using False ppp by (simp add: not_lt_key)
      then show ?thesis unfolding r using place by simp
    next
      case lt: True
      have r: "siftdown_loop h startpos newitem pos
                 = siftdown_loop (h[pos := h ! pp]) startpos newitem pp"
        using True lt by (subst siftdown_loop.simps) (simp add: Let_def pp_def)
      have nlt: "key newitem < key (h ! pp)" using lt by (simp add: lt_key)
      have hole': "hole_ok startpos (h[pos := h ! pp]) pp"
        unfolding hole_ok_def
      proof (intro conjI allI impI)
        fix i
        assume i: "i < length (h[pos := h ! pp])"
          and a: "0 < i \<and> startpos \<le> parent i \<and> i \<noteq> pp \<and> parent i \<noteq> pp"
        show "key (h[pos := h ! pp] ! parent i) \<le> key (h[pos := h ! pp] ! i)"
        proof (cases "i = pos")
          case True
          then show ?thesis using a ppp by simp
        next
          case False
          show ?thesis
          proof (cases "parent i = pos")
            case True
            have "key (h ! parent pos) \<le> key (h ! i)"
              using G[of i] i a True \<open>startpos < pos\<close> by simp
            then show ?thesis using True False i prems(3) ppp by simp
          next
            case F2: False
            then show ?thesis using E[of i] i a False by simp
          qed
        qed
      next
        fix i
        assume i: "i < length (h[pos := h ! pp])"
          and a: "0 < i \<and> parent i = pp \<and> startpos < pp"
        have pp0: "0 < pp" using a by simp
        have up: "key (h ! parent pp) \<le> key (h ! pp)"
          using E[of pp] ppl prems(3) pp0 a anc_parent_ge[OF anc_parent[OF prems(2) True]] ppp
                parent_less[OF pp0]
          by auto
        show "key (h[pos := h ! pp] ! parent pp) \<le> key (h[pos := h ! pp] ! i)"
        proof (cases "i = pos")
          case True
          then show ?thesis using up i parent_less[OF pp0] ppl by simp
        next
          case False
          have "key (h ! pp) \<le> key (h ! i)"
            using E[of i] i a False ppl pps by auto
          then show ?thesis using up False parent_less[OF pp0] ppl by simp
        qed
      qed
      have anc': "anc startpos pp" using anc_parent[OF prems(2) True] ppp by simp
      have C': "\<forall>i<length (h[pos := h ! pp]). 0 < i \<and> parent i = pp
                  \<longrightarrow> key newitem \<le> key (h[pos := h ! pp] ! i)"
      proof (intro allI impI)
        fix i
        assume i: "i < length (h[pos := h ! pp])" and a: "0 < i \<and> parent i = pp"
        show "key newitem \<le> key (h[pos := h ! pp] ! i)"
        proof (cases "i = pos")
          case True
          then show ?thesis using nlt i by simp
        next
          case False
          have "key (h ! pp) \<le> key (h ! i)"
            using E[of i] i a False ppl pps by auto
          then show ?thesis using nlt False by simp
        qed
      qed
      have ppl': "pp < length (h[pos := h ! pp])" using ppl prems(3) by simp
      have IH: "heap_from startpos (siftdown_loop (h[pos := h ! pp]) startpos newitem pp)
                \<and> mset (siftdown_loop (h[pos := h ! pp]) startpos newitem pp)
                    = mset (h[pos := h ! pp, pp := newitem])"
        using "1.IH"[OF True pp_def refl lt hole' anc' ppl' C'] .
      have "mset (h[pos := h ! pp, pp := newitem]) = mset (h[pos := newitem])"
        using mset_move[OF prems(3), of pp newitem] ppl prems(3) by simp
      then show ?thesis unfolding r using IH by simp
    qed
  qed
qed

lemma heap_invariant_iff: "heap_invariant h \<longleftrightarrow> heap_from 0 h"
  by (auto simp add: heap_invariant_def heap_from_def not_lt_key parent_def)

lemma heap_from_mono: "heap_from s h \<Longrightarrow> s \<le> s' \<Longrightarrow> heap_from s' h"
  by (auto simp add: heap_from_def)

lemma siftup_heap:
  assumes "heap_from (Suc s) h" and "s < length h"
  shows "heap_from s (siftup h s) \<and> mset (siftup h s) = mset h"
proof -
  obtain h1 p1 where e: "siftup_loop h (length h) s = (h1, p1)"
    by (cases "siftup_loop h (length h) s")
  have h0: "hole_ok s h s"
    using assms(1) unfolding hole_ok_def heap_from_def by (auto simp add: le_less Suc_le_eq)
  from siftup_loop_inv[OF h0 anc_refl assms(2) refl] e
  have inv: "hole_ok s h1 p1" "anc s p1" "p1 < length h" "length h \<le> 2 * p1 + 1"
    "length h1 = length h" "\<And>x. mset (h1[p1 := x]) = mset (h[s := x])"
    by auto
  let ?n = "h ! s"
  let ?h2 = "h1[p1 := ?n]"
  have r: "siftup h s = siftdown_loop ?h2 s ?n p1"
    using inv(3,5) by (simp add: siftup_def e siftdown_def Let_def)
  have a: "hole_ok s ?h2 p1" using inv(1,3,5) by simp
  have leaf: "\<forall>i<length ?h2. 0 < i \<and> parent i = p1 \<longrightarrow> key ?n \<le> key (?h2 ! i)"
  proof (intro allI impI)
    fix i assume "i < length ?h2" and "0 < i \<and> parent i = p1"
    then have "i = 2 * p1 + 1 \<or> i = 2 * p1 + 2" "i < length h"
      using parent_children[of i p1] inv(5) by auto
    then show "key ?n \<le> key (?h2 ! i)" using inv(4) by auto
  qed
  have pl: "p1 < length ?h2" using inv(3,5) by simp
  from siftdown_loop_inv[OF a inv(2) pl leaf]
  have "heap_from s (siftup h s)" "mset (siftup h s) = mset (?h2[p1 := ?n])"
    unfolding r by simp_all
  moreover have "mset (?h2[p1 := ?n]) = mset h"
    using inv(6)[of ?n] by simp
  ultimately show ?thesis by simp
qed

lemma heappush_heap:
  assumes "heap_from 0 h"
  shows "heap_from 0 (heappush h x) \<and> mset (heappush h x) = add_mset x (mset h)"
proof -
  let ?g = "h @ [x]"
  let ?p = "length h"
  have r: "heappush h x = siftdown_loop ?g 0 x ?p"
    by (simp add: heappush_def siftdown_def)
  have a: "hole_ok 0 ?g ?p"
    unfolding hole_ok_def
  proof (intro conjI allI impI)
    fix i assume i: "i < length ?g" and c: "0 < i \<and> 0 \<le> parent i \<and> i \<noteq> ?p \<and> parent i \<noteq> ?p"
    then have il: "i < length h" by simp
    moreover have "parent i < length h" using parent_less[of i] c il by simp
    ultimately show "key (?g ! parent i) \<le> key (?g ! i)"
      using assms c unfolding heap_from_def by (simp add: nth_append)
  next
    fix i assume i: "i < length ?g" and c: "0 < i \<and> parent i = ?p \<and> 0 < ?p"
    then have "length h < i" using parent_less[of i] by simp
    then show "key (?g ! parent ?p) \<le> key (?g ! i)" using i by simp
  qed
  have an: "anc 0 ?p"
  proof (induction "?p" rule: less_induct)
    case less
    have "\<And>n. anc 0 n"
    proof -
      fix n show "anc 0 n"
      proof (induction n rule: less_induct)
        case (less n)
        show ?case
        proof (cases "n = 0")
          case True then show ?thesis by simp
        next
          case False
          then have "parent n < n" using parent_less[of n] by simp
          then show ?thesis using less False by (simp add: anc.simps[of 0 n])
        qed
      qed
    qed
    then show ?case by simp
  qed
  have leaf: "\<forall>i<length ?g. 0 < i \<and> parent i = ?p \<longrightarrow> key x \<le> key (?g ! i)"
  proof (intro allI impI)
    fix i assume i: "i < length ?g" and c: "0 < i \<and> parent i = ?p"
    then have "length h < i" using parent_less[of i] by simp
    then show "key x \<le> key (?g ! i)" using i by simp
  qed
  have pl: "?p < length ?g" by simp
  from siftdown_loop_inv[OF a an pl leaf]
  show ?thesis unfolding r by simp
qed

lemma heap_root_min:
  assumes "heap_from 0 h"
  shows "i < length h \<Longrightarrow> key (h ! 0) \<le> key (h ! i)"
proof (induction i rule: less_induct)
  case (less i)
  show ?case
  proof (cases "i = 0")
    case True then show ?thesis by simp
  next
    case False
    then have pl: "parent i < i" using parent_less[of i] by simp
    have "key (h ! parent i) \<le> key (h ! i)"
      using assms less.prems False unfolding heap_from_def by simp
    moreover have "key (h ! 0) \<le> key (h ! parent i)"
      using less.IH[OF pl] pl less.prems by simp
    ultimately show ?thesis by simp
  qed
qed

lemma heappop_heap:
  assumes "heap_from 0 h" and "h \<noteq> []"
  shows "\<exists>x h'. heappop h = Some (x, h') \<and> heap_from 0 h' \<and> mset h = add_mset x (mset h')
           \<and> (\<forall>y \<in> set h. key x \<le> key y)"
proof (cases "butlast h = []")
  case True
  then have h: "h = [last h]" using assms(2) by (metis append_butlast_last_id append_Nil)
  have "heappop h = Some (last h, [])" using assms(2) True by (simp add: heappop_def Let_def)
  moreover have "heap_from 0 []" by (simp add: heap_from_def)
  moreover have "mset h = add_mset (last h) (mset [])" using h by (metis mset.simps(1) mset_single_iff_right add_mset_commute mset.simps(2))
  moreover have "\<forall>y \<in> set h. key (last h) \<le> key y" using h by (metis order_refl set_ConsD empty_iff list.set(1))
  ultimately show ?thesis by blast
next
  case False
  let ?b = "butlast h"
  let ?g = "?b[0 := last h]"
  have r: "heappop h = Some (?b ! 0, siftup ?g 0)"
    using assms(2) False by (simp add: heappop_def Let_def)
  have bl: "length ?b = length h - 1" by simp
  have b0: "0 < length ?b" using False by (cases "butlast h") simp_all
  have g1: "heap_from (Suc 0) ?g"
    unfolding heap_from_def
  proof (intro allI impI)
    fix i assume i: "i < length ?g" and c: "0 < i \<and> Suc 0 \<le> parent i"
    have il: "i < length h" using i by simp
    have pl: "parent i < i" using parent_less[of i] c by simp
    have "key (h ! parent i) \<le> key (h ! i)"
      using assms(1) il c unfolding heap_from_def by simp
    moreover have "?g ! i = h ! i" using i c by (simp add: nth_butlast)
    moreover have "?g ! parent i = h ! parent i" using i c pl by (simp add: nth_butlast)
    ultimately show "key (?g ! parent i) \<le> key (?g ! i)" by simp
  qed
  have gl: "0 < length ?g" using b0 by simp
  from siftup_heap[OF g1 gl] have s: "heap_from 0 (siftup ?g 0)" "mset (siftup ?g 0) = mset ?g"
    by simp_all
  have hsplit: "h = ?b @ [last h]" using assms(2) by simp
  have b_split: "?b = (?b ! 0) # tl ?b" using b0 by (cases ?b) simp_all
  have "mset ?g = add_mset (last h) (mset (tl ?b))"
    by (subst b_split) simp
  moreover have "mset h = add_mset (last h) (add_mset (?b ! 0) (mset (tl ?b)))"
    by (subst hsplit, subst b_split) simp
  ultimately have m: "mset h = add_mset (?b ! 0) (mset (siftup ?g 0))"
    using s(2) by simp
  have "?b ! 0 = h ! 0" using b0 by (simp add: nth_butlast)
  then have "\<forall>y \<in> set h. key (?b ! 0) \<le> key y"
    using heap_root_min[OF assms(1)] by (auto simp add: in_set_conv_nth)
  then show ?thesis using r s(1) m by blast
qed

lemma heapify_aux:
  "heap_from k x \<Longrightarrow> k \<le> length x \<Longrightarrow>
   heap_from 0 (foldl siftup x (rev [0 ..< k])) \<and> mset (foldl siftup x (rev [0 ..< k])) = mset x"
proof (induction k arbitrary: x)
  case 0
  then show ?case by simp
next
  case (Suc k)
  have kl: "k < length x" using Suc.prems(2) by simp
  from siftup_heap[OF Suc.prems(1) kl]
  have s: "heap_from k (siftup x k)" "mset (siftup x k) = mset x" by simp_all
  have "k \<le> length (siftup x k)" using kl by simp
  from Suc.IH[OF s(1) this] show ?case using s(2) by simp
qed

lemma heapify_heap: "heap_from 0 (heapify x) \<and> mset (heapify x) = mset x"
proof -
  have "heap_from (length x div 2) x"
    unfolding heap_from_def
  proof (intro allI impI)
    fix i assume "i < length x" and "0 < i \<and> length x div 2 \<le> parent i"
    then have False by (simp add: parent_def) linarith
    then show "key (x ! parent i) \<le> key (x ! i)" ..
  qed
  from heapify_aux[OF this] show ?thesis by (simp add: heapify_def)
qed

lemma key_le_iff:
  "key a \<le> key b \<longleftrightarrow>
     sc_score a < sc_score b \<or> (sc_score a = sc_score b \<and> sc_enqueue_time a \<le> sc_enqueue_time b)"
  by (auto simp add: key_def less_eq_prod_def)

lemma key_le_score: "key a \<le> key b \<Longrightarrow> sc_score a \<le> sc_score b"
  by (auto simp add: key_le_iff)

lemma drain_props:
  "heap_from 0 h \<Longrightarrow>
   \<exists>ps. drain h f m r = (m @ filter (\<lambda>t. agent (sc_task_meta t) = Some f) ps,
                          r @ filter (\<lambda>t. agent (sc_task_meta t) \<noteq> Some f) ps)
        \<and> mset ps = mset h \<and> sorted (map key ps)"
proof (induction h f m r rule: drain.induct)
  case (1 h f m r)
  show ?case
  proof (cases "h = []")
    case True
    then have "drain h f m r = (m, r)" by (simp add: drain.simps)
    then show ?thesis using True by (intro exI[of _ "[]"]) simp
  next
    case False
    from heappop_heap[OF "1.prems" False] obtain x h' where
      p: "heappop h = Some (x, h')" "heap_from 0 h'" "mset h = add_mset x (mset h')"
         "\<forall>y \<in> set h. key x \<le> key y"
      by blast
    have sub: "set h' \<subseteq> set h" using p(3) by (metis mset_subset_eq_add_mset_cancel mset_subset_eqD set_mset_mset subsetI subset_mset.order_refl union_single_eq_member insert_iff set_mset_add_mset_insert)
    show ?thesis
    proof (cases "agent (sc_task_meta x) = Some f")
      case True
      from "1.IH"(1)[OF False p(1) refl True p(2)] obtain ps where
        ps: "drain h' f (m @ [x]) r
               = ((m @ [x]) @ filter (\<lambda>t. agent (sc_task_meta t) = Some f) ps,
                  r @ filter (\<lambda>t. agent (sc_task_meta t) \<noteq> Some f) ps)"
            "mset ps = mset h'" "sorted (map key ps)"
        by blast
      have st: "drain h f m r = drain h' f (m @ [x]) r"
        using False p(1) True by (subst drain.simps) simp
      have "set ps = set h'" using ps(2) by (metis set_mset_mset)
      then have srt: "sorted (map key (x # ps))" using ps(3) p(4) sub by auto
      show ?thesis
        using st ps(1) ps(2) p(3) srt True by (intro exI[of _ "x # ps"]) simp
    next
      case F2: False
      from "1.IH"(2)[OF False p(1) refl F2 p(2)] obtain ps where
        ps: "drain h' f m (r @ [x])
               = (m @ filter (\<lambda>t. agent (sc_task_meta t) = Some f) ps,
                  (r @ [x]) @ filter (\<lambda>t. agent (sc_task_meta t) \<noteq> Some f) ps)"
            "mset ps = mset h'" "sorted (map key ps)"
        by blast
      have st: "drain h f m r = drain h' f m (r @ [x])"
        using False p(1) F2 by (subst drain.simps) simp
      have "set ps = set h'" using ps(2) by (metis set_mset_mset)
      then have srt: "sorted (map key (x # ps))" using ps(3) p(4) sub by auto
      show ?thesis
        using st ps(1) ps(2) p(3) srt F2 by (intro exI[of _ "x # ps"]) simp
    qed
  qed
qed

lemma foldl_min_keep:
  "\<forall>t \<in> set xs. sc_score b \<le> sc_score t \<Longrightarrow>
   foldl (\<lambda>best t. if sc_score t < sc_score best then t else best) b xs = b"
  by (induction xs) auto

lemma min_by_score_sorted:
  assumes "xs \<noteq> []" and "sorted (map key xs)"
  shows "min_by_score xs = hd xs"
proof -
  obtain y ys where xs: "xs = y # ys" using assms(1) by (cases xs) auto
  have "\<forall>t \<in> set ys. sc_score y \<le> sc_score t"
    using assms(2) xs by (auto intro: key_le_score)
  then show ?thesis by (simp add: min_by_score_def xs foldl_min_keep)
qed

lemma push_back_heap:
  "heap_from 0 h \<Longrightarrow>
   heap_from 0 (foldl (\<lambda>h task. if task \<noteq> b then heappush h task else h) h xs)
   \<and> mset (foldl (\<lambda>h task. if task \<noteq> b then heappush h task else h) h xs)
       = mset h + mset (filter (\<lambda>t. t \<noteq> b) xs)"
proof (induction xs arbitrary: h)
  case Nil
  then show ?case by simp
next
  case (Cons x xs)
  show ?case
  proof (cases "x = b")
    case True
    then show ?thesis using Cons.IH[OF Cons.prems] by simp
  next
    case False
    from heappush_heap[OF Cons.prems, of x]
    have hp: "heap_from 0 (heappush h x)" "mset (heappush h x) = add_mset x (mset h)" by simp_all
    from Cons.IH[OF hp(1)] show ?thesis using False hp(2) by simp
  qed
qed

lemma heap_update_dequeue_stats [simp]: "heap (update_dequeue_stats s) = heap s"
  by (simp add: update_dequeue_stats_def update_avg_def)

lemma dequeue_scored_empty: "heap s = [] \<Longrightarrow> dequeue_scored s af = (None, s)"
  by (simp add: dequeue_scored_def)

lemma dequeue_scored_unfiltered:
  assumes "heap_from 0 (heap s)" and "heap s \<noteq> []" and "af = None \<or> af = Some []"
  shows "\<exists>t s'. dequeue_scored s af = (Some t, s') \<and> heap_from 0 (heap s')
           \<and> mset (heap s) = add_mset t (mset (heap s'))
           \<and> (\<forall>u \<in> set (heap s). key t \<le> key u)"
proof -
  from heappop_heap[OF assms(1,2)] obtain x h' where
    p: "heappop (heap s) = Some (x, h')" "heap_from 0 h'" "mset (heap s) = add_mset x (mset h')"
       "\<forall>y \<in> set (heap s). key x \<le> key y"
    by blast
  have "dequeue_scored s af = (Some x, update_dequeue_stats (s\<lparr>heap := h'\<rparr>))"
    using assms(2,3) p(1) by (auto simp add: dequeue_scored_def)
  then show ?thesis using p by simp
qed

lemma split_without:
  "P b \<Longrightarrow>
   mset (filter (\<lambda>t. \<not> P t) ps) + mset (filter (\<lambda>t. t \<noteq> b) (filter P ps))
     = filter_mset (\<lambda>u. u \<noteq> b) (mset ps)"
  by (rule multiset_eqI) (auto simp add: count_mset count_filter_mset)

lemma dequeue_scored_filtered:
  assumes "heap_from 0 (heap s)" and "f \<noteq> []"
  shows "(\<forall>u \<in> set (heap s). agent (sc_task_meta u) \<noteq> Some f) \<longrightarrow>
           (\<exists>s'. dequeue_scored s (Some f) = (None, s') \<and> heap_from 0 (heap s')
                 \<and> mset (heap s') = mset (heap s))"
    and "(\<exists>u \<in> set (heap s). agent (sc_task_meta u) = Some f) \<longrightarrow>
           (\<exists>t s'. dequeue_scored s (Some f) = (Some t, s') \<and> heap_from 0 (heap s')
                 \<and> t \<in> set (heap s) \<and> agent (sc_task_meta t) = Some f
                 \<and> (\<forall>u \<in> set (heap s). agent (sc_task_meta u) = Some f \<longrightarrow> key t \<le> key u)
                 \<and> mset (heap s') = filter_mset (\<lambda>u. u \<noteq> t) (mset (heap s)))"
proof -
  let ?P = "\<lambda>t. agent (sc_task_meta t) = Some f"
  from drain_props[OF assms(1), of f "[]" "[]"] obtain ps where
    ps: "drain (heap s) f [] [] = (filter ?P ps, filter (\<lambda>t. \<not> ?P t) ps)"
        "mset ps = mset (heap s)" "sorted (map key ps)"
    by auto
  have sets: "set ps = set (heap s)" using ps(2) by (metis set_mset_mset)
  let ?h1 = "heapify (filter (\<lambda>t. \<not> ?P t) ps)"
  have h1: "heap_from 0 ?h1" "mset ?h1 = mset (filter (\<lambda>t. \<not> ?P t) ps)"
    using heapify_heap[of "filter (\<lambda>t. \<not> ?P t) ps"] by simp_all
  show "(\<forall>u \<in> set (heap s). agent (sc_task_meta u) \<noteq> Some f) \<longrightarrow>
           (\<exists>s'. dequeue_scored s (Some f) = (None, s') \<and> heap_from 0 (heap s')
                 \<and> mset (heap s') = mset (heap s))"
  proof
    assume none: "\<forall>u \<in> set (heap s). agent (sc_task_meta u) \<noteq> Some f"
    show "\<exists>s'. dequeue_scored s (Some f) = (None, s') \<and> heap_from 0 (heap s')
                 \<and> mset (heap s') = mset (heap s)"
    proof (cases "heap s = []")
      case True
      then show ?thesis using assms(1) by (simp add: dequeue_scored_empty)
    next
      case False
      have e: "filter ?P ps = []" using none sets by (auto simp add: filter_empty_conv)
      have a: "filter (\<lambda>t. \<not> ?P t) ps = ps" using none sets by (auto simp add: filter_id_conv)
      have "dequeue_scored s (Some f) = (None, s\<lparr>heap := ?h1\<rparr>)"
        using False assms(2) ps(1) e by (simp add: dequeue_scored_def)
      then show ?thesis using h1 a ps(2) by simp
    qed
  qed
  show "(\<exists>u \<in> set (heap s). agent (sc_task_meta u) = Some f) \<longrightarrow>
           (\<exists>t s'. dequeue_scored s (Some f) = (Some t, s') \<and> heap_from 0 (heap s')
                 \<and> t \<in> set (heap s) \<and> agent (sc_task_meta t) = Some f
                 \<and> (\<forall>u \<in> set (heap s). agent (sc_task_meta u) = Some f \<longrightarrow> key t \<le> key u)
                 \<and> mset (heap s') = filter_mset (\<lambda>u. u \<noteq> t) (mset (heap s)))"
  proof
    assume some: "\<exists>u \<in> set (heap s). agent (sc_task_meta u) = Some f"
    then have ne: "heap s \<noteq> []" by auto
    let ?m = "filter ?P ps"
    have mne: "?m \<noteq> []" using some sets by (auto simp add: filter_empty_conv)
    have msorted: "sorted (map key ?m)" using ps(3) by (simp add: sorted_filter)
    let ?b = "min_by_score ?m"
    have b: "?b = hd ?m" using min_by_score_sorted[OF mne msorted] .
    have bin: "?b \<in> set ?m" unfolding b using mne by (rule hd_in_set)
    have binx: "?b \<in> {x \<in> set ps. ?P x}" using bin by (simp only: set_filter)
    have bP: "?P ?b" using binx by blast
    have bh: "?b \<in> set (heap s)" using binx sets by blast
    have bmin: "\<forall>u \<in> set (heap s). ?P u \<longrightarrow> key ?b \<le> key u"
    proof (intro ballI impI)
      fix u assume "u \<in> set (heap s)" and "?P u"
      then have um: "u \<in> set ?m" using sets by simp
      obtain y ys where m: "?m = y # ys" using mne by (cases ?m) auto
      then have "?b = y" using b by simp
      moreover have "\<forall>v \<in> set ys. key y \<le> key v" using msorted m by simp
      ultimately show "key ?b \<le> key u" using um m by auto
    qed
    let ?h2 = "foldl (\<lambda>h task. if task \<noteq> ?b then heappush h task else h) ?h1 ?m"
    from push_back_heap[OF h1(1), of ?b ?m]
    have h2: "heap_from 0 ?h2" "mset ?h2 = mset ?h1 + mset (filter (\<lambda>t. t \<noteq> ?b) ?m)"
      by simp_all
    have "mset ?h2 = filter_mset (\<lambda>u. u \<noteq> ?b) (mset ps)"
      using h2(2) h1(2) split_without[of ?P ?b ps] bP by simp
    then have m2: "mset ?h2 = filter_mset (\<lambda>u. u \<noteq> ?b) (mset (heap s))" using ps(2) by simp
    have "dequeue_scored s (Some f) = (Some ?b, update_dequeue_stats (s\<lparr>heap := ?h2\<rparr>))"
      using ne assms(2) ps(1) mne by (simp add: dequeue_scored_def Let_def)
    then show "\<exists>t s'. dequeue_scored s (Some f) = (Some t, s') \<and> heap_from 0 (heap s')
                 \<and> t \<in> set (heap s) \<and> agent (sc_task_meta t) = Some f
                 \<and> (\<forall>u \<in> set (heap s). agent (sc_task_meta u) = Some f \<longrightarrow> key t \<le> key u)
                 \<and> mset (heap s') = filter_mset (\<lambda>u. u \<noteq> t) (mset (heap s))"
      using h2(1) bh bP bmin m2 by simp
  qed
qed

lemma heap_update_avg [simp]: "heap (update_avg s) = heap s"
  by (simp add: update_avg_def)

lemma heap_enqueue:
  "heap (snd (enqueue s t1 t2 tm))
     = heappush (heap s) \<lparr> sc_score = score s t1 tm, sc_enqueue_time = t2, sc_task_meta = tm \<rparr>"
  by (simp add: enqueue_def Let_def)

lemma dequeue_scored_step:
  assumes "heap_from 0 (heap s)"
  shows "\<exists>r s'. dequeue_scored s af = (r, s') \<and> heap_from 0 (heap s')
           \<and> set (heap s') \<subseteq> set (heap s)
           \<and> (case r of
                 None \<Rightarrow> True
               | Some t \<Rightarrow> t \<in> set (heap s) \<and> matches af t
                          \<and> (\<forall>u \<in> set (heap s). matches af u \<longrightarrow> key t \<le> key u))"
proof (cases "heap s = []")
  case True
  then show ?thesis using assms by (simp add: dequeue_scored_empty)
next
  case False
  show ?thesis
  proof (cases "af = None \<or> af = Some []")
    case True
    from dequeue_scored_unfiltered[OF assms False True] obtain t s' where
      d: "dequeue_scored s af = (Some t, s')" "heap_from 0 (heap s')"
         "mset (heap s) = add_mset t (mset (heap s'))" "\<forall>u \<in> set (heap s). key t \<le> key u"
      by blast
    have "set (heap s) = insert t (set (heap s'))"
      using d(3) by (metis set_mset_add_mset_insert set_mset_mset)
    then show ?thesis using d True by (auto simp add: matches_def)
  next
    case F2: False
    then obtain f where f: "af = Some f" "f \<noteq> []" by (cases af) auto
    have m: "matches af t \<longleftrightarrow> agent (sc_task_meta t) = Some f" for t
      using f by (simp add: matches_def)
    show ?thesis
    proof (cases "\<exists>u \<in> set (heap s). agent (sc_task_meta u) = Some f")
      case True
      from dequeue_scored_filtered(2)[OF assms f(2)] True obtain t s' where
        d: "dequeue_scored s (Some f) = (Some t, s')" "heap_from 0 (heap s')"
           "t \<in> set (heap s)" "agent (sc_task_meta t) = Some f"
           "\<forall>u \<in> set (heap s). agent (sc_task_meta u) = Some f \<longrightarrow> key t \<le> key u"
           "mset (heap s') = filter_mset (\<lambda>u. u \<noteq> t) (mset (heap s))"
        by blast
      have "set (heap s') \<subseteq> set (heap s)"
        using d(6) by (metis (no_types, lifting) multiset_filter_subset mset_subset_eqD
            set_mset_mset subsetI)
      then show ?thesis using d f(1) m by simp
    next
      case False
      from dequeue_scored_filtered(1)[OF assms f(2)] False obtain s' where
        d: "dequeue_scored s (Some f) = (None, s')" "heap_from 0 (heap s')"
           "mset (heap s') = mset (heap s)"
        by blast
      have "set (heap s') = set (heap s)" using d(3) by (metis set_mset_mset)
      then show ?thesis using d f(1) by simp
    qed
  qed
qed

lemma dequeue_many_sorted:
  "heap_from 0 (heap s) \<Longrightarrow>
   sorted (map key (dequeue_many n s af))
   \<and> (\<forall>t \<in> set (dequeue_many n s af). t \<in> set (heap s) \<and> matches af t)"
proof (induction n arbitrary: s)
  case 0
  then show ?case by simp
next
  case (Suc n)
  from dequeue_scored_step[OF Suc.prems, of af] obtain r s' where
    d: "dequeue_scored s af = (r, s')" "heap_from 0 (heap s')" "set (heap s') \<subseteq> set (heap s)"
       "case r of None \<Rightarrow> True
        | Some t \<Rightarrow> t \<in> set (heap s) \<and> matches af t
                   \<and> (\<forall>u \<in> set (heap s). matches af u \<longrightarrow> key t \<le> key u)"
    by blast
  from Suc.IH[OF d(2)] have IH:
    "sorted (map key (dequeue_many n s' af))"
    "\<forall>t \<in> set (dequeue_many n s' af). t \<in> set (heap s') \<and> matches af t"
    by simp_all
  show ?case
  proof (cases r)
    case None
    then show ?thesis using d(1,3) IH by auto
  next
    case (Some t)
    then have t: "t \<in> set (heap s)" "matches af t"
      "\<forall>u \<in> set (heap s). matches af u \<longrightarrow> key t \<le> key u"
      using d(4) by simp_all
    have "\<forall>u \<in> set (dequeue_many n s' af). key t \<le> key u"
      using IH(2) d(3) t(3) by blast
    then show ?thesis using Some d(1,3) IH t by auto
  qed
qed

lemma heap_dequeue: "heap (snd (dequeue s af)) = heap (snd (dequeue_scored s af))"
  by (simp add: dequeue_def split: prod.splits)

lemma queue_state_heap: "queue_state s \<Longrightarrow> heap_from 0 (heap s)"
proof (induction rule: queue_state.induct)
  case (qs_init config st)
  then show ?case by (simp add: Scheduler_init_def heap_from_def)
next
  case (qs_enqueue s t_score t_enq tm)
  then show ?case by (simp add: heap_enqueue heappush_heap)
next
  case (qs_dequeue s agent_filter)
  from dequeue_scored_step[OF qs_dequeue.IH, of agent_filter]
  show ?case by (auto simp add: heap_dequeue)
next
  case (qs_remove s tid)
  then show ?case by (simp add: remove_task_def Let_def heapify_heap)
next
  case (qs_clear s)
  then show ?case by (simp add: clear_def heap_from_def)
next
  case (qs_ert s st)
  then show ?case by simp
qed

lemma queue_state_invariant: "queue_state s \<Longrightarrow> heap_invariant (heap s)"
  by (simp add: heap_invariant_iff queue_state_heap)

lemma heappush_empty: "heappush [] x = [x]"
  by (simp add: heappush_def siftdown_def siftdown_loop.simps)

lemma score_tm_A: "score sched_empty t tm_A = - (61 / 60)"
  by (simp add: score_def get_ert_def sched_empty_def Scheduler_init_def default_sched_config_def
        redis_empty_def tm_A_def tm_empty_def get_agent_def get_action_def Let_def)

lemma heap_sched_empty: "heap sched_empty = []"
  by (simp add: sched_empty_def Scheduler_init_def)

lemma heap_sched_one: "heap sched_one = [entry_A]"
  by (simp add: sched_one_def heap_enqueue heappush_empty score_tm_A entry_A_def
        heap_sched_empty)

lemma score_sched_one: "score sched_one t tm = score sched_empty t tm"
  by (simp add: score_def sched_one_def enqueue_def update_avg_def Let_def)

lemma score_tm_B: "score sched_empty t tm_B = - (61 / 60)"
  by (simp add: score_def get_ert_def sched_empty_def Scheduler_init_def default_sched_config_def
        redis_empty_def tm_B_def tm_empty_def get_agent_def get_action_def Let_def)

lemma heap_sched_dup: "heap sched_dup = [entry_A, entry_A]"
  by (simp add: sched_dup_def heap_enqueue heap_sched_one score_sched_one score_tm_A
        heappush_def siftdown_def siftdown_loop.simps lt_def entry_A_def Let_def)

lemma heap_sched_two: "heap sched_two = [entry_A, entry_B]"
  by (simp add: sched_two_def heap_enqueue heap_sched_one score_sched_one score_tm_B
        heappush_def siftdown_def siftdown_loop.simps lt_def entry_A_def entry_B_def Let_def)

lemma agent_entry_A: "agent (sc_task_meta entry_A) = Some ''X''"
  by (simp add: entry_A_def tm_A_def)

lemma agent_entry_B: "agent (sc_task_meta entry_B) = Some ''Y''"
  by (simp add: entry_B_def tm_B_def)

lemma drain_dup: "drain [entry_A, entry_A] ''X'' [] [] = ([entry_A, entry_A], [])"
  by (simp add: drain.simps heappop_def Let_def siftup_def siftup_loop.simps siftdown_def
        siftdown_loop.simps agent_entry_A)

text \<open>
  Claim C9 fails on the code.  Task \<open>A\<close> is enqueued twice at the same clock reading, so
  the queue holds two entries that compare equal.  The dequeue for agent \<open>X\<close> returns
  the task and leaves the queue empty: the loop that puts the other matching entries
  back skips every entry equal to the returned one.
\<close>

theorem dequeue_drops_equal_entry:
  "heap sched_dup = [entry_A, entry_A]
   \<and> fst (dequeue sched_dup (Some ''X'')) = Some tm_A
   \<and> heap (snd (dequeue sched_dup (Some ''X''))) = []"
proof -
  have "dequeue_scored sched_dup (Some ''X'')
          = (Some entry_A, update_dequeue_stats (sched_dup\<lparr>heap := []\<rparr>))"
    by (simp add: dequeue_scored_def heap_sched_dup drain_dup heapify_def min_by_score_def)
  then show ?thesis
    by (simp add: dequeue_def heap_sched_dup entry_A_def)
qed

text \<open>
  Claim C3, as stated, fails: the filter argument \<open>''''\<close> is a string, the queue holds
  one entry, of agent \<open>X\<close>, so no entry matches the filter; yet the dequeue returns
  that entry, because \<open>if not agent_filter\<close> sends the empty string down the unfiltered
  path.
\<close>

theorem dequeue_empty_filter_counterexample:
  "heap sched_one = [entry_A]
   \<and> agent (sc_task_meta entry_A) = Some ''X''
   \<and> fst (dequeue sched_one (Some '''')) = Some tm_A"
proof -
  have "heappop [entry_A] = Some (entry_A, [])"
    by (simp add: heappop_def Let_def)
  then have "dequeue_scored sched_one (Some '''')
          = (Some entry_A, update_dequeue_stats (sched_one\<lparr>heap := []\<rparr>))"
    by (simp add: dequeue_scored_def heap_sched_one)
  then have "fst (dequeue sched_one (Some '''')) = Some tm_A"
    by (simp add: dequeue_def entry_A_def)
  then show ?thesis
    using heap_sched_one agent_entry_A by simp
qed

text \<open>
  Claim C3, amended.  In every queue state: a dequeue without a filter (no argument, or
  the empty string) on a non-empty queue returns an entry whose key
  \<open>(score, enqueue_time)\<close> no entry of the queue undercuts; a dequeue with a non-empty
  agent filter returns nothing when no entry is of that agent and otherwise an entry of
  that agent whose key no entry of that agent undercuts; and the entries that \<open>n\<close>
  successive dequeues with one and the same filter argument return come in
  nondecreasing key order.  Keys are compared by score first and by enqueue time on
  equal scores.
\<close>

theorem dequeue_lowest_first:
  "queue_state s \<longrightarrow>
     (heap s \<noteq> [] \<and> (af = None \<or> af = Some []) \<longrightarrow>
        (\<exists>t s'. dequeue_scored s af = (Some t, s')
            \<and> fst (dequeue s af) = Some (sc_task_meta t)
            \<and> t \<in> set (heap s)
            \<and> (\<forall>u \<in> set (heap s). key t \<le> key u)))
     \<and> (f \<noteq> [] \<longrightarrow>
          ((\<forall>u \<in> set (heap s). agent (sc_task_meta u) \<noteq> Some f) \<longrightarrow>
              fst (dequeue s (Some f)) = None)
          \<and> ((\<exists>u \<in> set (heap s). agent (sc_task_meta u) = Some f) \<longrightarrow>
              (\<exists>t s'. dequeue_scored s (Some f) = (Some t, s')
                  \<and> fst (dequeue s (Some f)) = Some (sc_task_meta t)
                  \<and> t \<in> set (heap s) \<and> agent (sc_task_meta t) = Some f
                  \<and> (\<forall>u \<in> set (heap s). agent (sc_task_meta u) = Some f \<longrightarrow> key t \<le> key u))))
     \<and> sorted (map key (dequeue_many n s af))
     \<and> (\<forall>a b. key a \<le> key b \<longleftrightarrow>
            sc_score a < sc_score b
            \<or> (sc_score a = sc_score b \<and> sc_enqueue_time a \<le> sc_enqueue_time b))"
proof
  assume q: "queue_state s"
  have h: "heap_from 0 (heap s)" using queue_state_heap[OF q] .
  have unf: "heap s \<noteq> [] \<and> (af = None \<or> af = Some []) \<longrightarrow>
        (\<exists>t s'. dequeue_scored s af = (Some t, s')
            \<and> fst (dequeue s af) = Some (sc_task_meta t)
            \<and> t \<in> set (heap s)
            \<and> (\<forall>u \<in> set (heap s). key t \<le> key u))"
  proof
    assume a: "heap s \<noteq> [] \<and> (af = None \<or> af = Some [])"
    from dequeue_scored_unfiltered[OF h] a obtain t s' where
      d: "dequeue_scored s af = (Some t, s')"
         "mset (heap s) = add_mset t (mset (heap s'))" "\<forall>u \<in> set (heap s). key t \<le> key u"
      by blast
    have "t \<in> set (heap s)" using d(2) by (metis set_mset_mset union_single_eq_member)
    then show "\<exists>t s'. dequeue_scored s af = (Some t, s')
            \<and> fst (dequeue s af) = Some (sc_task_meta t)
            \<and> t \<in> set (heap s)
            \<and> (\<forall>u \<in> set (heap s). key t \<le> key u)"
      using d by (simp add: dequeue_def)
  qed
  have fil: "f \<noteq> [] \<longrightarrow>
          ((\<forall>u \<in> set (heap s). agent (sc_task_meta u) \<noteq> Some f) \<longrightarrow>
              fst (dequeue s (Some f)) = None)
          \<and> ((\<exists>u \<in> set (heap s). agent (sc_task_meta u) = Some f) \<longrightarrow>
              (\<exists>t s'. dequeue_scored s (Some f) = (Some t, s')
                  \<and> fst (dequeue s (Some f)) = Some (sc_task_meta t)
                  \<and> t \<in> set (heap s) \<and> agent (sc_task_meta t) = Some f
                  \<and> (\<forall>u \<in> set (heap s). agent (sc_task_meta u) = Some f \<longrightarrow> key t \<le> key u)))"
  proof (intro impI conjI)
    assume f: "f \<noteq> []" and "\<forall>u \<in> set (heap s). agent (sc_task_meta u) \<noteq> Some f"
    with dequeue_scored_filtered(1)[OF h f] obtain s' where
      "dequeue_scored s (Some f) = (None, s')" by blast
    then show "fst (dequeue s (Some f)) = None" by (simp add: dequeue_def)
  next
    assume f: "f \<noteq> []" and "\<exists>u \<in> set (heap s). agent (sc_task_meta u) = Some f"
    with dequeue_scored_filtered(2)[OF h f] obtain t s' where
      d: "dequeue_scored s (Some f) = (Some t, s')"
         "t \<in> set (heap s)" "agent (sc_task_meta t) = Some f"
         "\<forall>u \<in> set (heap s). agent (sc_task_meta u) = Some f \<longrightarrow> key t \<le> key u"
      by blast
    then show "\<exists>t s'. dequeue_scored s (Some f) = (Some t, s')
                  \<and> fst (dequeue s (Some f)) = Some (sc_task_meta t)
                  \<and> t \<in> set (heap s) \<and> agent (sc_task_meta t) = Some f
                  \<and> (\<forall>u \<in> set (heap s). agent (sc_task_meta u) = Some f \<longrightarrow> key t \<le> key u)"
      by (simp add: dequeue_def)
  qed
  have srt: "sorted (map key (dequeue_many n s af))"
    using dequeue_many_sorted[OF h] by simp
  show "(heap s \<noteq> [] \<and> (af = None \<or> af = Some []) \<longrightarrow>
        (\<exists>t s'. dequeue_scored s af = (Some t, s')
            \<and> fst (dequeue s af) = Some (sc_task_meta t)
            \<and> t \<in> set (heap s)
            \<and> (\<forall>u \<in> set (heap s). key t \<le> key u)))
     \<and> (f \<noteq> [] \<longrightarrow>
          ((\<forall>u \<in> set (heap s). agent (sc_task_meta u) \<noteq> Some f) \<longrightarrow>
              fst (dequeue s (Some f)) = None)
          \<and> ((\<exists>u \<in> set (heap s). agent (sc_task_meta u) = Some f) \<longrightarrow>
              (\<exists>t s'. dequeue_scored s (Some f) = (Some t, s')
                  \<and> fst (dequeue s (Some f)) = Some (sc_task_meta t)
                  \<and> t \<in> set (heap s) \<and> agent (sc_task_meta t) = Some f
                  \<and> (\<forall>u \<in> set (heap s). agent (sc_task_meta u) = Some f \<longrightarrow> key t \<le> key u))))
     \<and> sorted (map key (dequeue_many n s af))
     \<and> (\<forall>a b. key a \<le> key b \<longleftrightarrow>
            sc_score a < sc_score b
            \<or> (sc_score a = sc_score b \<and> sc_enqueue_time a \<le> sc_enqueue_time b))"
    using unf fil srt key_le_iff by blast
qed

theorem dequeue_lowest_first_witness:
  "queue_state sched_two \<and> heap sched_two \<noteq> []
   \<and> (\<exists>t s'. dequeue_scored sched_two None = (Some t, s')
         \<and> fst (dequeue sched_two None) = Some (sc_task_meta t)
         \<and> t \<in> set (heap sched_two)
         \<and> (\<forall>u \<in> set (heap sched_two). key t \<le> key u))
   \<and> ''Y'' \<noteq> []
   \<and> (\<exists>u \<in> set (heap sched_two). agent (sc_task_meta u) = Some ''Y'')
   \<and> (\<exists>t s'. dequeue_scored sched_two (Some ''Y'') = (Some t, s')
         \<and> fst (dequeue sched_two (Some ''Y'')) = Some (sc_task_meta t)
         \<and> agent (sc_task_meta t) = Some ''Y'')
   \<and> sorted (map key (dequeue_many 2 sched_two None))"
proof -
  have q: "queue_state sched_two"
    unfolding sched_two_def sched_one_def sched_empty_def
    by (intro qs_enqueue qs_init)
  have ne: "heap sched_two \<noteq> []" by (simp add: heap_sched_two)
  have y: "\<exists>u \<in> set (heap sched_two). agent (sc_task_meta u) = Some ''Y''"
    by (simp add: heap_sched_two agent_entry_B)
  have fy: "''Y'' \<noteq> []" by simp
  show ?thesis
    using dequeue_lowest_first[of sched_two None "''Y''" 2] q ne y fy
    by blast
qed

subsection \<open>Coordinator: task failure and cancellation\<close>

lemma length_update_one [simp]: "length (update_one P f xs) = length xs"
  by (induction xs) auto

lemma update_one_nth_other:
  "i < length xs \<Longrightarrow> \<not> P (xs ! i) \<Longrightarrow> update_one P f xs ! i = xs ! i"
proof (induction xs arbitrary: i)
  case Nil
  then show ?case by simp
next
  case (Cons x xs)
  then show ?case by (cases i) auto
qed

lemma find_update_one:
  "(\<And>x. P x \<Longrightarrow> P (f x)) \<Longrightarrow>
   find_one P (update_one P f xs) = map_option f (find_one P xs)"
  by (induction xs) (auto simp add: find_one_def)

lemma check_workflow_completion_db:
  "db m = Some d \<Longrightarrow> runs d = rs \<Longrightarrow> tasks d = ts \<Longrightarrow>
   \<exists>d'. db (check_workflow_completion m now rid) = Some d' \<and> tasks d' = ts
     \<and> runs d' =
          (case find_one (\<lambda>w. wf_run_id w = rid) rs of
             None \<Rightarrow> rs
           | Some w \<Rightarrow>
               if completed_tasks (wf_counters w) + failed_tasks (wf_counters w)
                    \<ge> total_tasks (wf_counters w)
               then (if failed_tasks (wf_counters w) > 0
                     then update_one (\<lambda>w. wf_run_id w = rid)
                            (\<lambda>w. w\<lparr>wf_status := ws_value WS_FAILED,
                                   wf_completed_at := Some now, wf_updated_at := now\<rparr>) rs
                     else update_one (\<lambda>w. wf_run_id w = rid)
                            (\<lambda>w. w\<lparr>wf_status := ws_value WS_COMPLETED,
                                   wf_completed_at := Some now, wf_updated_at := now\<rparr>) rs)
               else rs)"
  by (auto simp add: check_workflow_completion_def Let_def wm_emit_def split: option.splits)

lemma check_workflow_completion_memory:
  "in_memory_tasks (check_workflow_completion m now rid) = in_memory_tasks m
   \<and> in_memory_workflows (check_workflow_completion m now rid) = in_memory_workflows m"
  by (simp add: check_workflow_completion_def Let_def wm_emit_def split: option.splits)

lemma db_truth_raises:
  "db m = Some d \<Longrightarrow> db_bool m = Raises \<Longrightarrow> db_truth m = None"
  by (simp add: db_truth_def)

lemma db_truth_truthy:
  "db m = Some d \<Longrightarrow> db_bool m = Truthy \<Longrightarrow> db_truth m = Some (Some d)"
  by (simp add: db_truth_def)

lemma db_truth_absent: "db m = None \<Longrightarrow> db_truth m = Some None"
  by (simp add: db_truth_def)

lemma handle_task_completion_raises:
  "db (sys_mgr sys) = Some d \<Longrightarrow> db_bool (sys_mgr sys) = Raises \<Longrightarrow>
   handle_task_completion sys now rid tid success result = (Some NotImplementedError, sys)"
  by (simp add: handle_task_completion_def db_truth_raises)

lemma handle_task_completion_absent:
  "db (sys_mgr sys) = None \<Longrightarrow>
   handle_task_completion sys now rid tid success result = (None, sys)"
  by (simp add: handle_task_completion_def db_truth_absent)

lemma chain_state:
  "db (sys_mgr sys_chain)
     = Some \<lparr> runs = [\<lparr> wf_run_id = ''W'', wf_definition = [def_A, def_B, def_C],
                         wf_status = ''running'', wf_created_at = 1, wf_updated_at = 2,
                         wf_started_at = Some 2, wf_completed_at = None,
                         wf_counters = \<lparr> total_tasks = 3, completed_tasks = 0, failed_tasks = 0 \<rparr>,
                         wf_cancellation_reason = None, wf_cancelled_by = None,
                         wf_cancelled_at = None \<rparr>],
               tasks = [new_task_doc 1 ''W'' 0 def_A, new_task_doc 1 ''W'' 1 def_B,
                        new_task_doc 1 ''W'' 2 def_C] \<rparr>
   \<and> db_bool (sys_mgr sys_chain) = Raises \<and> use_mongo (sys_mgr sys_chain)"
  by (simp add: sys_chain_def start_workflow_def init_workflow_def sys_of_def
     create_task_documents_def enqueue_initial_tasks_def db_truth_def mgr_mongo_def
     wm_emit_def Let_def numeral_2_eq_2)

lemma chain_evaluated:
  "task_statuses sys_chain = [(''A'', ''pending''), (''B'', ''pending''), (''C'', ''pending'')]
   \<and> run_statuses sys_chain = [(''W'', ''running'')]"
  by (simp add: task_statuses_def run_statuses_def chain_state new_task_doc_def
        def_A_def def_B_def def_C_def Let_def)

lemma chain_truthy_evaluated:
  "task_statuses sys_chain_truthy
     = [(''A'', ''queued''), (''B'', ''pending''), (''C'', ''pending'')]
   \<and> run_statuses sys_chain_truthy = [(''W'', ''running'')]
   \<and> task_statuses (snd (handle_task_completion sys_chain_truthy 3 ''W'' ''A'' False None))
        = [(''A'', ''failed''), (''B'', ''pending''), (''C'', ''pending'')]
   \<and> run_statuses (snd (handle_task_completion sys_chain_truthy 3 ''W'' ''A'' False None))
        = [(''W'', ''running'')]"
  by (simp add: task_statuses_def run_statuses_def
     handle_task_completion_def check_workflow_completion_def find_one_def
     sys_chain_truthy_def start_workflow_def init_workflow_def sys_of_def db_truth_def
     create_task_documents_def enqueue_initial_tasks_def enqueue_task_doc_def
     mgr_mongo_truthy_def mgr_mongo_def new_task_doc_def def_A_def def_B_def def_C_def
     wm_emit_def Let_def engine_enqueue_task_def enqueue_def update_avg_def split_def)

text \<open>
  Claim C1, as stated, fails.  The chain \<open>A \<rightarrow> B \<rightarrow> C\<close> is initialised and started, and
  the coordinator is told that \<open>A\<close> failed.  With the handle of the driver the module
  imports, the test \<open>if not self.db\<close> raises and nothing is written: \<open>B\<close> and \<open>C\<close> are
  pending, not cancelled, and the workflow is running, not failed.  With a handle that
  is true, \<open>A\<close> is marked failed, and again \<open>B\<close> and \<open>C\<close> are pending and the workflow
  is running.
\<close>

theorem chain_failure_counterexample:
  "fst (handle_task_completion sys_chain 3 ''W'' ''A'' False None) = Some NotImplementedError
   \<and> task_statuses (snd (handle_task_completion sys_chain 3 ''W'' ''A'' False None))
        = [(''A'', ts_value TS_PENDING), (''B'', ts_value TS_PENDING),
           (''C'', ts_value TS_PENDING)]
   \<and> run_statuses (snd (handle_task_completion sys_chain 3 ''W'' ''A'' False None))
        = [(''W'', ws_value WS_RUNNING)]
   \<and> task_statuses (snd (handle_task_completion sys_chain_truthy 3 ''W'' ''A'' False None))
        = [(''A'', ts_value TS_FAILED), (''B'', ts_value TS_PENDING),
           (''C'', ts_value TS_PENDING)]
   \<and> run_statuses (snd (handle_task_completion sys_chain_truthy 3 ''W'' ''A'' False None))
        = [(''W'', ws_value WS_RUNNING)]"
proof -
  have "handle_task_completion sys_chain 3 ''W'' ''A'' False None
          = (Some NotImplementedError, sys_chain)"
    using chain_state by (simp add: handle_task_completion_raises)
  then show ?thesis
    using chain_evaluated chain_truthy_evaluated by simp
qed

lemma handle_task_failure_truthy:
  assumes d: "db (sys_mgr sys) = Some d" and t: "db_bool (sys_mgr sys) = Truthy"
  shows "\<exists>d'. handle_task_completion sys now rid tid False result
            = (None, sys\<lparr>sys_mgr := sys_mgr (snd (handle_task_completion sys now rid tid False result))\<rparr>)
        \<and> db (sys_mgr (snd (handle_task_completion sys now rid tid False result))) = Some d'
        \<and> in_memory_tasks (sys_mgr (snd (handle_task_completion sys now rid tid False result)))
             = in_memory_tasks (sys_mgr sys)
        \<and> in_memory_workflows (sys_mgr (snd (handle_task_completion sys now rid tid False result)))
             = in_memory_workflows (sys_mgr sys)
        \<and> tasks d' = update_one (\<lambda>t. td_run_id t = rid \<and> td_task_id t = tid)
                       (\<lambda>t. t\<lparr>td_status := ts_value TS_FAILED, td_completed_at := Some now,
                              td_updated_at := now,
                              td_result := (case result of None \<Rightarrow> td_result t
                                            | Some r \<Rightarrow> Some r)\<rparr>)
                       (tasks d)
        \<and> (\<forall>w. find_one (\<lambda>w. wf_run_id w = rid) (runs d) = Some w \<longrightarrow>
              (\<exists>w'. find_one (\<lambda>w. wf_run_id w = rid) (runs d') = Some w'
                 \<and> failed_tasks (wf_counters w') = failed_tasks (wf_counters w) + 1
                 \<and> completed_tasks (wf_counters w') = completed_tasks (wf_counters w)
                 \<and> total_tasks (wf_counters w') = total_tasks (wf_counters w)
                 \<and> wf_status w' =
                     (if completed_tasks (wf_counters w) + (failed_tasks (wf_counters w) + 1)
                           \<ge> total_tasks (wf_counters w)
                      then (if failed_tasks (wf_counters w) + 1 > 0
                            then ws_value WS_FAILED else ws_value WS_COMPLETED)
                      else wf_status w)))"
proof -
  let ?P = "\<lambda>w. wf_run_id w = rid"
  let ?inc = "\<lambda>w. w\<lparr>wf_counters := (wf_counters w)\<lparr>failed_tasks := failed_tasks (wf_counters w) + 1\<rparr>,
                      wf_updated_at := now\<rparr>"
  let ?tasks1 = "update_one (\<lambda>t. td_run_id t = rid \<and> td_task_id t = tid)
                       (\<lambda>t. t\<lparr>td_status := ts_value TS_FAILED, td_completed_at := Some now,
                              td_updated_at := now,
                              td_result := (case result of None \<Rightarrow> td_result t
                                            | Some r \<Rightarrow> Some r)\<rparr>)
                       (tasks d)"
  let ?runs1 = "update_one ?P ?inc (runs d)"
  let ?m1 = "(sys_mgr sys)\<lparr>db := Some (d\<lparr>runs := ?runs1, tasks := ?tasks1\<rparr>),
                wm_stats := (wm_stats (sys_mgr sys))\<lparr>wm_tasks_failed :=
                               wm_tasks_failed (wm_stats (sys_mgr sys)) + 1\<rparr>\<rparr>"
  let ?H = "handle_task_completion sys now rid tid False result"
  have hc: "?H = (None, sys\<lparr>sys_mgr :=
                 wm_emit (check_workflow_completion ?m1 now rid) ''task_failed'' rid (Some tid)\<rparr>)"
    using d t by (simp add: handle_task_completion_def db_truth_truthy Let_def)
  have f1: "find_one ?P ?runs1 = map_option ?inc (find_one ?P (runs d))"
    by (rule find_update_one) simp
  have m1d: "db ?m1 = Some (d\<lparr>runs := ?runs1, tasks := ?tasks1\<rparr>)" by simp
  have rr: "runs (d\<lparr>runs := ?runs1, tasks := ?tasks1\<rparr>) = ?runs1"
    and tt: "tasks (d\<lparr>runs := ?runs1, tasks := ?tasks1\<rparr>) = ?tasks1" by simp_all
  from check_workflow_completion_db[OF m1d rr tt, of now rid] obtain d' where
    d': "db (check_workflow_completion ?m1 now rid) = Some d'"
    and t': "tasks d' = ?tasks1"
    and r': "runs d' =
          (case find_one ?P ?runs1 of
             None \<Rightarrow> ?runs1
           | Some w \<Rightarrow>
               if completed_tasks (wf_counters w) + failed_tasks (wf_counters w)
                    \<ge> total_tasks (wf_counters w)
               then (if failed_tasks (wf_counters w) > 0
                     then update_one ?P
                            (\<lambda>w. w\<lparr>wf_status := ws_value WS_FAILED,
                                   wf_completed_at := Some now, wf_updated_at := now\<rparr>) ?runs1
                     else update_one ?P
                            (\<lambda>w. w\<lparr>wf_status := ws_value WS_COMPLETED,
                                   wf_completed_at := Some now, wf_updated_at := now\<rparr>) ?runs1)
               else ?runs1)"
    by blast
  have dd: "db (sys_mgr (snd ?H)) = Some d'"
    using hc d' by (simp add: wm_emit_def)
  have mem: "in_memory_tasks (sys_mgr (snd ?H)) = in_memory_tasks (sys_mgr sys)"
            "in_memory_workflows (sys_mgr (snd ?H)) = in_memory_workflows (sys_mgr sys)"
    using hc by (simp_all add: wm_emit_def check_workflow_completion_memory)
  have run: "\<exists>w'. find_one ?P (runs d') = Some w'
                 \<and> failed_tasks (wf_counters w') = failed_tasks (wf_counters w) + 1
                 \<and> completed_tasks (wf_counters w') = completed_tasks (wf_counters w)
                 \<and> total_tasks (wf_counters w') = total_tasks (wf_counters w)
                 \<and> wf_status w' =
                     (if completed_tasks (wf_counters w) + (failed_tasks (wf_counters w) + 1)
                           \<ge> total_tasks (wf_counters w)
                      then (if failed_tasks (wf_counters w) + 1 > 0
                            then ws_value WS_FAILED else ws_value WS_COMPLETED)
                      else wf_status w)"
    if w: "find_one ?P (runs d) = Some w" for w
  proof -
    have fw: "find_one ?P ?runs1 = Some (?inc w)" using f1 w by simp
    let ?fail = "\<lambda>w. w\<lparr>wf_status := ws_value WS_FAILED, wf_completed_at := Some now,
                         wf_updated_at := now\<rparr>"
    let ?done = "\<lambda>w. w\<lparr>wf_status := ws_value WS_COMPLETED, wf_completed_at := Some now,
                         wf_updated_at := now\<rparr>"
    have ff: "find_one ?P (update_one ?P ?fail ?runs1) = Some (?fail (?inc w))"
      using find_update_one[of ?P ?fail ?runs1] fw by simp
    have fd: "find_one ?P (update_one ?P ?done ?runs1) = Some (?done (?inc w))"
      using find_update_one[of ?P ?done ?runs1] fw by simp
    have "runs d' =
            (if completed_tasks (wf_counters w) + (failed_tasks (wf_counters w) + 1)
                  \<ge> total_tasks (wf_counters w)
             then (if failed_tasks (wf_counters w) + 1 > 0
                   then update_one ?P ?fail ?runs1 else update_one ?P ?done ?runs1)
             else ?runs1)"
      using r' fw by simp
    then show ?thesis using fw ff fd by auto
  qed
  have shape: "?H = (None, sys\<lparr>sys_mgr := sys_mgr (snd ?H)\<rparr>)"
    using hc by simp
  show ?thesis
    using shape dd mem t' run by blast
qed

text \<open>
  Claim C1, amended.  When the coordinator handles a task failure, the scheduler, the
  retry tracker and the in-memory records are left as they were, and so is every task
  document other than that of the failed task: no sibling is cancelled.  The status of
  the run is left as it was, or, when \<open>completed_tasks + failed_tasks\<close>, counting this
  failure, has reached \<open>total_tasks\<close>, it is set to failed.  This holds whether the
  manager has no database handle (the call does nothing), a handle whose truth value
  raises (the call raises before any write), or a handle that is true.
\<close>

theorem task_failure_frame:
  "\<exists>exn sys'. handle_task_completion sys now rid tid False result = (exn, sys')
     \<and> sys_sched sys' = sys_sched sys \<and> sys_tracker sys' = sys_tracker sys
     \<and> sys_cancelled_runs sys' = sys_cancelled_runs sys
     \<and> in_memory_tasks (sys_mgr sys') = in_memory_tasks (sys_mgr sys)
     \<and> in_memory_workflows (sys_mgr sys') = in_memory_workflows (sys_mgr sys)
     \<and> (db (sys_mgr sys) = None \<longrightarrow> sys' = sys)
     \<and> (\<forall>d. db (sys_mgr sys) = Some d \<longrightarrow>
           (\<exists>d'. db (sys_mgr sys') = Some d'
              \<and> length (tasks d') = length (tasks d)
              \<and> (\<forall>i < length (tasks d).
                    td_run_id (tasks d ! i) \<noteq> rid \<or> td_task_id (tasks d ! i) \<noteq> tid
                    \<longrightarrow> tasks d' ! i = tasks d ! i)
              \<and> (\<forall>w. find_one (\<lambda>w. wf_run_id w = rid) (runs d) = Some w \<longrightarrow>
                    (\<exists>w'. find_one (\<lambda>w. wf_run_id w = rid) (runs d') = Some w'
                       \<and> (wf_status w' = wf_status w
                            \<or> (total_tasks (wf_counters w)
                                  \<le> completed_tasks (wf_counters w)
                                     + (failed_tasks (wf_counters w) + 1)
                                \<and> wf_status w' =
                                     (if 0 < failed_tasks (wf_counters w) + 1
                                      then ws_value WS_FAILED
                                      else ws_value WS_COMPLETED)))))))"
proof (cases "db (sys_mgr sys)")
  case None
  then show ?thesis by (simp add: handle_task_completion_absent)
next
  case (Some d)
  show ?thesis
  proof (cases "db_bool (sys_mgr sys)")
    case Raises
    have "handle_task_completion sys now rid tid False result = (Some NotImplementedError, sys)"
      using Some Raises by (rule handle_task_completion_raises)
    then show ?thesis using Some by simp
  next
    case Truthy
    let ?H = "handle_task_completion sys now rid tid False result"
    from handle_task_failure_truthy[OF Some Truthy, of now rid tid result] obtain d' where
      shape: "?H = (None, sys\<lparr>sys_mgr := sys_mgr (snd ?H)\<rparr>)"
      and dd: "db (sys_mgr (snd ?H)) = Some d'"
      and mem: "in_memory_tasks (sys_mgr (snd ?H)) = in_memory_tasks (sys_mgr sys)"
               "in_memory_workflows (sys_mgr (snd ?H)) = in_memory_workflows (sys_mgr sys)"
      and t': "tasks d' = update_one (\<lambda>t. td_run_id t = rid \<and> td_task_id t = tid)
                       (\<lambda>t. t\<lparr>td_status := ts_value TS_FAILED, td_completed_at := Some now,
                              td_updated_at := now,
                              td_result := (case result of None \<Rightarrow> td_result t
                                            | Some r \<Rightarrow> Some r)\<rparr>)
                       (tasks d)"
      and run: "\<forall>w. find_one (\<lambda>w. wf_run_id w = rid) (runs d) = Some w \<longrightarrow>
              (\<exists>w'. find_one (\<lambda>w. wf_run_id w = rid) (runs d') = Some w'
                 \<and> failed_tasks (wf_counters w') = failed_tasks (wf_counters w) + 1
                 \<and> completed_tasks (wf_counters w') = completed_tasks (wf_counters w)
                 \<and> total_tasks (wf_counters w') = total_tasks (wf_counters w)
                 \<and> wf_status w' =
                     (if completed_tasks (wf_counters w) + (failed_tasks (wf_counters w) + 1)
                           \<ge> total_tasks (wf_counters w)
                      then (if failed_tasks (wf_counters w) + 1 > 0
                            then ws_value WS_FAILED else ws_value WS_COMPLETED)
                      else wf_status w))"
      by blast
    have len: "length (tasks d') = length (tasks d)" using t' by simp
    have others: "\<forall>i < length (tasks d).
              td_run_id (tasks d ! i) \<noteq> rid \<or> td_task_id (tasks d ! i) \<noteq> tid
              \<longrightarrow> tasks d' ! i = tasks d ! i"
      using t' by (auto simp add: update_one_nth_other)
    have run': "\<exists>w'. find_one (\<lambda>w. wf_run_id w = rid) (runs d') = Some w'
                       \<and> (wf_status w' = wf_status w
                            \<or> (total_tasks (wf_counters w)
                                  \<le> completed_tasks (wf_counters w)
                                     + (failed_tasks (wf_counters w) + 1)
                                \<and> wf_status w' =
                                     (if 0 < failed_tasks (wf_counters w) + 1
                                      then ws_value WS_FAILED
                                      else ws_value WS_COMPLETED)))"
      if "find_one (\<lambda>w. wf_run_id w = rid) (runs d) = Some w" for w
    proof -
      from run that obtain w' where
        w': "find_one (\<lambda>w. wf_run_id w = rid) (runs d') = Some w'"
            "wf_status w' =
                     (if completed_tasks (wf_counters w) + (failed_tasks (wf_counters w) + 1)
                           \<ge> total_tasks (wf_counters w)
                      then (if failed_tasks (wf_counters w) + 1 > 0
                            then ws_value WS_FAILED else ws_value WS_COMPLETED)
                      else wf_status w)"
        by blast
      show ?thesis
        using w' by (cases "completed_tasks (wf_counters w) + (failed_tasks (wf_counters w) + 1)
                           \<ge> total_tasks (wf_counters w)") auto
    qed
    have eng: "sys_sched (snd ?H) = sys_sched sys" "sys_tracker (snd ?H) = sys_tracker sys"
              "sys_cancelled_runs (snd ?H) = sys_cancelled_runs sys"
      by (subst shape, simp)+
    have pair: "?H = (fst ?H, snd ?H)" by simp
    have "?H = (fst ?H, snd ?H)
     \<and> sys_sched (snd ?H) = sys_sched sys \<and> sys_tracker (snd ?H) = sys_tracker sys
     \<and> sys_cancelled_runs (snd ?H) = sys_cancelled_runs sys
     \<and> in_memory_tasks (sys_mgr (snd ?H)) = in_memory_tasks (sys_mgr sys)
     \<and> in_memory_workflows (sys_mgr (snd ?H)) = in_memory_workflows (sys_mgr sys)
     \<and> (db (sys_mgr sys) = None \<longrightarrow> snd ?H = sys)
     \<and> (\<forall>d. db (sys_mgr sys) = Some d \<longrightarrow>
           (\<exists>d'. db (sys_mgr (snd ?H)) = Some d'
              \<and> length (tasks d') = length (tasks d)
              \<and> (\<forall>i < length (tasks d).
                    td_run_id (tasks d ! i) \<noteq> rid \<or> td_task_id (tasks d ! i) \<noteq> tid
                    \<longrightarrow> tasks d' ! i = tasks d ! i)
              \<and> (\<forall>w. find_one (\<lambda>w. wf_run_id w = rid) (runs d) = Some w \<longrightarrow>
                    (\<exists>w'. find_one (\<lambda>w. wf_run_id w = rid) (runs d') = Some w'
                       \<and> (wf_status w' = wf_status w
                            \<or> (total_tasks (wf_counters w)
                                  \<le> completed_tasks (wf_counters w)
                                     + (failed_tasks (wf_counters w) + 1)
                                \<and> wf_status w' =
                                     (if 0 < failed_tasks (wf_counters w) + 1
                                      then ws_value WS_FAILED
                                      else ws_value WS_COMPLETED)))))))"
      using pair eng mem Some dd len others run' by simp
    then show ?thesis
      by - (rule exI[of _ "fst ?H"], rule exI[of _ "snd ?H"], assumption)
  qed
qed

theorem task_failure_frame_witness:
  "\<exists>d d' w w'. db (sys_mgr sys_chain) = Some d
      \<and> db (sys_mgr (snd (handle_task_completion sys_chain 3 ''W'' ''A'' False None))) = Some d'
      \<and> 1 < length (tasks d) \<and> td_task_id (tasks d ! 1) = ''B''
      \<and> tasks d' ! 1 = tasks d ! 1
      \<and> find_one (\<lambda>w. wf_run_id w = ''W'') (runs d) = Some w
      \<and> find_one (\<lambda>w. wf_run_id w = ''W'') (runs d') = Some w'
      \<and> wf_status w' = wf_status w"
proof -
  obtain d where d: "db (sys_mgr sys_chain) = Some d"
    and l: "1 < length (tasks d)" and b: "td_task_id (tasks d ! 1) = ''B''"
    and w: "\<exists>w. find_one (\<lambda>w. wf_run_id w = ''W'') (runs d) = Some w
               \<and> total_tasks (wf_counters w) = 3 \<and> completed_tasks (wf_counters w) = 0
               \<and> failed_tasks (wf_counters w) = 0"
    using chain_state
    by (simp add: find_one_def new_task_doc_def def_B_def def_A_def Let_def)
  from w obtain w where w: "find_one (\<lambda>w. wf_run_id w = ''W'') (runs d) = Some w"
    "total_tasks (wf_counters w) = 3" "completed_tasks (wf_counters w) = 0"
    "failed_tasks (wf_counters w) = 0" by blast
  from task_failure_frame[of sys_chain 3 "''W''" "''A''" None] obtain exn sys' where
    h: "handle_task_completion sys_chain 3 ''W'' ''A'' False None = (exn, sys')"
    and f: "\<forall>d. db (sys_mgr sys_chain) = Some d \<longrightarrow>
           (\<exists>d'. db (sys_mgr sys') = Some d'
              \<and> length (tasks d') = length (tasks d)
              \<and> (\<forall>i < length (tasks d).
                    td_run_id (tasks d ! i) \<noteq> ''W'' \<or> td_task_id (tasks d ! i) \<noteq> ''A''
                    \<longrightarrow> tasks d' ! i = tasks d ! i)
              \<and> (\<forall>w. find_one (\<lambda>w. wf_run_id w = ''W'') (runs d) = Some w \<longrightarrow>
                    (\<exists>w'. find_one (\<lambda>w. wf_run_id w = ''W'') (runs d') = Some w'
                       \<and> (wf_status w' = wf_status w
                            \<or> (total_tasks (wf_counters w)
                                  \<le> completed_tasks (wf_counters w)
                                     + (failed_tasks (wf_counters w) + 1)
                                \<and> wf_status w' =
                                     (if 0 < failed_tasks (wf_counters w) + 1
                                      then ws_value WS_FAILED
                                      else ws_value WS_COMPLETED))))))"
    by blast
  from f d obtain d' where d': "db (sys_mgr sys') = Some d'"
    and o: "\<forall>i < length (tasks d).
                    td_run_id (tasks d ! i) \<noteq> ''W'' \<or> td_task_id (tasks d ! i) \<noteq> ''A''
                    \<longrightarrow> tasks d' ! i = tasks d ! i"
    and r: "\<forall>w. find_one (\<lambda>w. wf_run_id w = ''W'') (runs d) = Some w \<longrightarrow>
                    (\<exists>w'. find_one (\<lambda>w. wf_run_id w = ''W'') (runs d') = Some w'
                       \<and> (wf_status w' = wf_status w
                            \<or> (total_tasks (wf_counters w)
                                  \<le> completed_tasks (wf_counters w)
                                     + (failed_tasks (wf_counters w) + 1)
                                \<and> wf_status w' =
                                     (if 0 < failed_tasks (wf_counters w) + 1
                                      then ws_value WS_FAILED
                                      else ws_value WS_COMPLETED))))"
    by blast
  have t1: "tasks d' ! 1 = tasks d ! 1" using o l b by simp
  from r w(1) obtain w' where w': "find_one (\<lambda>w. wf_run_id w = ''W'') (runs d') = Some w'"
    "wf_status w' = wf_status w
       \<or> (total_tasks (wf_counters w)
             \<le> completed_tasks (wf_counters w) + (failed_tasks (wf_counters w) + 1)
           \<and> wf_status w' =
                (if 0 < failed_tasks (wf_counters w) + 1
                 then ws_value WS_FAILED else ws_value WS_COMPLETED))"
    by blast
  have s: "wf_status w' = wf_status w" using w'(2) w by simp
  have "db (sys_mgr (snd (handle_task_completion sys_chain 3 ''W'' ''A'' False None))) = Some d'"
    using h d' by simp
  then show ?thesis using d l b t1 w(1) w'(1) s by blast
qed



lemma cancel_workflow_engine_untouched:
  "sys_sched (snd (cancel_workflow sys now rid reason force cancelled_by)) = sys_sched sys
   \<and> sys_tracker (snd (cancel_workflow sys now rid reason force cancelled_by)) = sys_tracker sys"
  by (simp add: cancel_workflow_def Let_def split: option.splits)

lemma cancel_workflow_true_in_memory_only:
  "fst (cancel_workflow sys now rid reason force cancelled_by) \<Longrightarrow>
   (\<not> use_mongo (sys_mgr sys) \<or> db (sys_mgr sys) = None)
   \<and> in_memory_workflows (sys_mgr sys) rid \<noteq> None"
  by (auto simp add: cancel_workflow_def Let_def db_truth_def
        split: option.splits if_splits handle_bool.splits)

lemma memory_state:
  "in_memory_workflows (sys_mgr sys_memory) ''W''
     = Some \<lparr> wf_run_id = ''W'', wf_definition = [def_A, def_B],
              wf_status = ''pending'', wf_created_at = 1, wf_updated_at = 1,
              wf_started_at = None, wf_completed_at = None,
              wf_counters = \<lparr> total_tasks = 2, completed_tasks = 0, failed_tasks = 0 \<rparr>,
              wf_cancellation_reason = None, wf_cancelled_by = None, wf_cancelled_at = None \<rparr>
   \<and> in_memory_tasks (sys_mgr sys_memory) ''W:A'' = Some (new_task_doc 1 ''W'' 0 def_A)
   \<and> in_memory_tasks (sys_mgr sys_memory) ''W:B'' = Some (new_task_doc 1 ''W'' 1 def_B)
   \<and> \<not> use_mongo (sys_mgr sys_memory) \<and> db (sys_mgr sys_memory) = None
   \<and> sys_sched sys_memory = sched_empty \<and> sys_tracker sys_memory = rt_up"
  by (simp add: sys_memory_def start_workflow_def init_workflow_def sys_of_def
     create_task_documents_def enqueue_initial_tasks_def db_truth_def mgr_memory_def
     wm_emit_def Let_def task_key_def def_A_def def_B_def)

text \<open>
  Claim C5 fails on the code.  A manager without a database creates the run \<open>W\<close> of
  the tasks \<open>A\<close> and \<open>B\<close> and starts it; both tasks have the status
  \<open>TaskStatus.PENDING.value\<close>, the string \<open>pending\<close>.  \<open>cancel_workflow\<close> returns true
  and marks the run \<open>CANCELLED\<close>, and both tasks still have the status \<open>pending\<close>: the
  loop over the tasks tests the status against the upper-case strings \<open>PENDING\<close>,
  \<open>QUEUED\<close>, \<open>RUNNING\<close>.
\<close>

theorem cancel_leaves_tasks_pending:
  "map_option td_status (in_memory_tasks (sys_mgr sys_memory) ''W:A'')
     = Some (ts_value TS_PENDING)
   \<and> map_option td_status (in_memory_tasks (sys_mgr sys_memory) ''W:B'')
     = Some (ts_value TS_PENDING)
   \<and> fst (cancel_workflow sys_memory 4 ''W'' ''user-requested'' False ''system'') = True
   \<and> map_option wf_status
        (in_memory_workflows
           (sys_mgr (snd (cancel_workflow sys_memory 4 ''W'' ''user-requested'' False ''system'')))
           ''W'') = Some ''CANCELLED''
   \<and> map_option td_status
        (in_memory_tasks
           (sys_mgr (snd (cancel_workflow sys_memory 4 ''W'' ''user-requested'' False ''system'')))
           ''W:A'') = Some ''pending''
   \<and> map_option td_status
        (in_memory_tasks
           (sys_mgr (snd (cancel_workflow sys_memory 4 ''W'' ''user-requested'' False ''system'')))
           ''W:B'') = Some ''pending''"
  by (simp add: cancel_workflow_def memory_state new_task_doc_def Let_def)

end
